theory Spec2Isabelle
  imports Complex_Main "HOL-Library.Stream" "HOL-Library.Multiset"
begin

section \<open>Text utilities\<close>

text \<open>
  The quiz engine of \<^verbatim>\<open>static/app.js\<close> compares names after a normalization step. A
  JavaScript string is a sequence of code units; the strings of the model are of type
  \<^typ>\<open>string\<close>, whose characters are the code units 0 to 255 (Latin-1 text). The steps of
  \<^verbatim>\<open>normalizeName\<close> that come after \<^verbatim>\<open>normalize("NFKD")\<close> work on lists of code points, since
  the decomposition of an accented letter is its base letter followed by a combining
  mark above 255. Text with code units above 255 is outside the model.
\<close>

type_synonym codepoint = nat

definition is_lower :: "codepoint \<Rightarrow> bool" where
  "is_lower n = (97 \<le> n \<and> n \<le> 122)"

definition is_digit :: "codepoint \<Rightarrow> bool" where
  "is_digit n = (48 \<le> n \<and> n \<le> 57)"

text \<open>
  The class \<^verbatim>\<open>\s\<close> of a regular expression, which is also what \<^verbatim>\<open>trim\<close> removes: tab,
  line feed, vertical tab, form feed, carriage return, space, no-break space, and the
  other space separators and line terminators of Unicode.
\<close>

definition is_space :: "codepoint \<Rightarrow> bool" where
  "is_space n =
     (n \<in> set [9, 10, 11, 12, 13, 32, 160, 5760, 8232, 8233, 8239, 8287, 12288, 65279]
      \<or> (8192 \<le> n \<and> n \<le> 8202))"

text \<open>
  \<^verbatim>\<open>toLowerCase\<close> on Latin-1: the letters \<^verbatim>\<open>A-Z\<close> and the accented capitals 192 to 222
  (the multiplication sign 215 apart) move up by 32.
\<close>

definition lowerChar :: "char \<Rightarrow> char" where
  "lowerChar c =
     (let n = of_char c :: nat
      in if (65 \<le> n \<and> n \<le> 90) \<or> (192 \<le> n \<and> n \<le> 222 \<and> n \<noteq> 215) then char_of (n + 32)
         else c)"

definition toLowerCase :: "string \<Rightarrow> string" where
  "toLowerCase s = map lowerChar s"

text \<open>
  \<^verbatim>\<open>normalize("NFKD")\<close> on Latin-1: the compatibility decompositions of the Unicode
  character database for the code points 128 to 255; every other character of the
  range, and all of ASCII, is its own decomposition.
\<close>

definition latin1Decompositions :: "(codepoint \<times> codepoint list) list" where
  "latin1Decompositions =
     [(160, [32]), (168, [32, 776]), (170, [97]), (175, [32, 772]), (178, [50]), (179, [51]),
      (180, [32, 769]), (181, [956]), (184, [32, 807]), (185, [49]), (186, [111]),
      (188, [49, 8260, 52]), (189, [49, 8260, 50]), (190, [51, 8260, 52]), (192, [65, 768]),
      (193, [65, 769]), (194, [65, 770]), (195, [65, 771]), (196, [65, 776]), (197, [65, 778]),
      (199, [67, 807]), (200, [69, 768]), (201, [69, 769]), (202, [69, 770]), (203, [69, 776]),
      (204, [73, 768]), (205, [73, 769]), (206, [73, 770]), (207, [73, 776]), (209, [78, 771]),
      (210, [79, 768]), (211, [79, 769]), (212, [79, 770]), (213, [79, 771]), (214, [79, 776]),
      (217, [85, 768]), (218, [85, 769]), (219, [85, 770]), (220, [85, 776]), (221, [89, 769]),
      (224, [97, 768]), (225, [97, 769]), (226, [97, 770]), (227, [97, 771]), (228, [97, 776]),
      (229, [97, 778]), (231, [99, 807]), (232, [101, 768]), (233, [101, 769]),
      (234, [101, 770]), (235, [101, 776]), (236, [105, 768]), (237, [105, 769]),
      (238, [105, 770]), (239, [105, 776]), (241, [110, 771]), (242, [111, 768]),
      (243, [111, 769]), (244, [111, 770]), (245, [111, 771]), (246, [111, 776]),
      (249, [117, 768]), (250, [117, 769]), (251, [117, 770]), (252, [117, 776]),
      (253, [121, 769]), (255, [121, 776])]"

definition decompose :: "char \<Rightarrow> codepoint list" where
  "decompose c =
     (let n = of_char c :: nat
      in if n < 128 then [n]
         else (case map_of latin1Decompositions n of Some d \<Rightarrow> d | None \<Rightarrow> [n]))"

definition normalizeNFKD :: "string \<Rightarrow> codepoint list" where
  "normalizeNFKD s = concat (map decompose s)"

text \<open>The combining marks that the second \<^verbatim>\<open>replace\<close> removes are the code points 768 to 879.\<close>

definition removeCombiningMarks :: "codepoint list \<Rightarrow> codepoint list" where
  "removeCombiningMarks s = filter (\<lambda>n. \<not> (768 \<le> n \<and> n \<le> 879)) s"

text \<open>\<^verbatim>\<open>.replace(/[^a-z0-9\s]/g, "")\<close>\<close>

definition dropPunctuation :: "codepoint list \<Rightarrow> codepoint list" where
  "dropPunctuation s = filter (\<lambda>n. is_lower n \<or> is_digit n \<or> is_space n) s"

text \<open>\<^verbatim>\<open>.replace(/\s+/g, " ")\<close>: every maximal run of whitespace becomes one space.\<close>

function collapseSpaces :: "codepoint list \<Rightarrow> codepoint list" where
  "collapseSpaces [] = []"
| "collapseSpaces (c # cs) =
     (if is_space c then 32 # collapseSpaces (dropWhile is_space cs)
      else c # collapseSpaces cs)"
  by pat_completeness auto
termination
  by (relation "measure length") (auto simp: less_Suc_eq_le length_dropWhile_le)

definition trim :: "codepoint list \<Rightarrow> codepoint list" where
  "trim s = rev (dropWhile is_space (rev (dropWhile is_space s)))"

text \<open>
  What is left after these steps are the code points of \<^verbatim>\<open>a-z\<close>, \<^verbatim>\<open>0-9\<close> and the space, which
  \<open>char_of\<close> takes back to characters.
\<close>

definition normalizeName :: "string \<Rightarrow> string" where
  "normalizeName str =
     map char_of (trim (collapseSpaces (dropPunctuation (removeCombiningMarks
       (normalizeNFKD (toLowerCase str))))))"

text \<open>
  \<^verbatim>\<open>split(" ")\<close> cuts at every single space and keeps empty pieces; the result is never
  the empty array.
\<close>

fun split_on :: "char \<Rightarrow> string \<Rightarrow> string list" where
  "split_on d [] = [[]]"
| "split_on d (c # cs) =
     (if c = d then [] # split_on d cs
      else (case split_on d cs of [] \<Rightarrow> [[c]] | p # ps \<Rightarrow> (c # p) # ps))"

definition lastNameOf :: "string \<Rightarrow> string" where
  "lastNameOf full =
     (let parts = split_on CHR '' '' (normalizeName full)
      in if parts = [] then [] else last parts)"

subsection \<open>Levenshtein distance\<close>

text \<open>
  The table \<^verbatim>\<open>dp\<close> is a list of rows; \<^verbatim>\<open>new Array(n + 1)\<close> leaves the cells unset, which
  the model fills with \<open>0\<close> until the loops write them. The three loops are folds over
  the index ranges of the source.
\<close>

definition setCell :: "nat list list \<Rightarrow> nat \<Rightarrow> nat \<Rightarrow> nat \<Rightarrow> nat list list" where
  "setCell dp i j v = dp[i := (dp ! i)[j := v]]"

definition fillCell :: "string \<Rightarrow> string \<Rightarrow> nat list list \<Rightarrow> nat \<Rightarrow> nat \<Rightarrow> nat list list" where
  "fillCell a b dp i j =
     (let cost = (if a ! (i - 1) = b ! (j - 1) then 0 else 1)
      in setCell dp i j
           (min (min (dp ! (i - 1) ! j + 1) (dp ! i ! (j - 1) + 1))
                (dp ! (i - 1) ! (j - 1) + cost)))"

definition levenshtein :: "string \<Rightarrow> string \<Rightarrow> nat" where
  "levenshtein a0 b0 =
     (let a = normalizeName a0; b = normalizeName b0;
          m = length a; n = length b
      in if m = 0 then n
         else if n = 0 then m
         else
           let dp = replicate (m + 1) (replicate (n + 1) 0);
               dp = foldl (\<lambda>dp i. setCell dp i 0 i) dp [0..<m + 1];
               dp = foldl (\<lambda>dp j. setCell dp 0 j j) dp [0..<n + 1];
               dp = foldl (\<lambda>dp i. foldl (\<lambda>dp j. fillCell a b dp i j) dp [1..<n + 1])
                      dp [1..<m + 1]
           in dp ! m ! n)"

definition withinMisspellingThreshold :: "string \<Rightarrow> string \<Rightarrow> bool" where
  "withinMisspellingThreshold input target =
     (let t = normalizeName target; i = normalizeName input;
          dist = levenshtein i t
      in if length t \<ge> 7 then dist \<le> 2 else dist \<le> 1)"

text \<open>
  The reference notion: the unit-cost edit distance of two sequences, where deleting,
  inserting and replacing one element cost 1 each and nothing else is allowed.
\<close>

fun edit_distance :: "'a list \<Rightarrow> 'a list \<Rightarrow> nat" where
  "edit_distance [] ys = length ys"
| "edit_distance xs [] = length xs"
| "edit_distance (x # xs) (y # ys) =
     min (min (edit_distance xs (y # ys) + 1) (edit_distance (x # xs) ys + 1))
         (edit_distance xs ys + (if x = y then 0 else 1))"

text \<open>\<open>edits n xs ys\<close>: some script of \<open>n\<close> unit-cost operations turns \<open>xs\<close> into \<open>ys\<close>.\<close>

inductive edits :: "nat \<Rightarrow> 'a list \<Rightarrow> 'a list \<Rightarrow> bool" where
  finish: "edits 0 [] []"
| keep: "edits n xs ys \<Longrightarrow> edits n (x # xs) (x # ys)"
| substitute: "edits n xs ys \<Longrightarrow> edits (Suc n) (x # xs) (y # ys)"
| delete: "edits n xs ys \<Longrightarrow> edits (Suc n) (x # xs) ys"
| insert: "edits n xs ys \<Longrightarrow> edits (Suc n) xs (y # ys)"

section \<open>Numbers\<close>

text \<open>
  A JavaScript number is a double: the result of a multiplication or a division is the
  exact result rounded to the nearest number with a significand of 53 bits, a tie going
  to the even significand. \<open>roundDouble\<close> is that rounding on the reals. Overflow
  and the subnormal range are left out: the operands here are draws of a random source
  and lengths of arrays (below \<open>2 ^ 32\<close>), whose products and quotients stay in
  the normal range unless they are below \<open>2 ^ - 1022\<close>, where only the integer
  part \<open>0\<close> is read.
\<close>

definition roundEven :: "real \<Rightarrow> int" where
  "roundEven y =
     (let f = \<lfloor>y\<rfloor>; d = y - of_int f
      in if d < 1 / 2 then f else if 1 / 2 < d then f + 1 else if even f then f else f + 1)"

definition roundDouble :: "real \<Rightarrow> real" where
  "roundDouble x =
     (if x = 0 then 0
      else let u = 2 powr of_int (\<lfloor>log 2 \<bar>x\<bar>\<rfloor> - 52)
           in of_int (roundEven (x / u)) * u)"

text \<open>The reals that are doubles are those that the rounding leaves alone.\<close>

definition isDouble :: "real \<Rightarrow> bool" where
  "isDouble x \<longleftrightarrow> roundDouble x = x"

text \<open>\<^verbatim>\<open>Math.round\<close> gives the nearest integer, the upper one of two that are equally near.\<close>

definition mathRound :: "real \<Rightarrow> int" where
  "mathRound x = \<lfloor>x + 1 / 2\<rfloor>"

section \<open>Data model\<close>

text \<open>
  A senator as \<^verbatim>\<open>loadSenators\<close> hands it to the engine: every field is a string, the
  portrait is the empty string when the data has none.
\<close>

record senator =
  name :: string
  state :: string
  party :: string
  seniority :: string
  portrait :: string

datatype difficulty = Easy | Hard

text \<open>
  A value that may be \<^verbatim>\<open>null\<close> or \<^verbatim>\<open>undefined\<close> is an option; both are \<open>None\<close>.
  Object literals with named properties are association lists in the order written.
\<close>

type_synonym props = "(string \<times> string option) list"

text \<open>
  \<^verbatim>\<open>makeId\<close> renders one draw of \<^verbatim>\<open>Math.random\<close> in base 36 and keeps seven digits behind
  the prefix \<^verbatim>\<open>q_\<close>. The rendering of a floating-point number is not modelled: the
  identifier of the model is the draw itself.
\<close>

type_synonym ident = real

record question =
  id_q :: ident
  template :: string
  filled_variables :: props
  difficulty :: difficulty
  correct_answers :: "string list"
  allowed_answer_modes :: "string list"
  type :: string
  portrait_image :: "string option"

record error =
  error_type :: string
  message :: string
  details :: "props option"

record userAnswer =
  question_id :: ident
  user_input :: string
  is_correct :: bool
  accepted_as :: string
  feedback :: string

record template_kind =
  key :: string
  kind :: string

definition officialName :: "senator \<Rightarrow> string" where
  "officialName sen = name sen"

definition errorObject :: "string \<Rightarrow> string \<Rightarrow> props option \<Rightarrow> error" where
  "errorObject et msg det = \<lparr>error_type = et, message = msg, details = det\<rparr>"

text \<open>
  \<^verbatim>\<open>isError(obj)\<close> tests the property \<^verbatim>\<open>error_type\<close>, which every error object carries
  (non-empty) and no question has: a filler's result is a sum, \<open>Inl\<close> the error.
\<close>

definition isError :: "error + question \<Rightarrow> bool" where
  "isError r = (case r of Inl e \<Rightarrow> error_type e \<noteq> [] | Inr q \<Rightarrow> False)"

section \<open>Randomness\<close>

text \<open>
  Two sources of random numbers reach the generator: the function \<^verbatim>\<open>rnd\<close> that the
  caller supplies, and the ambient \<^verbatim>\<open>Math.random\<close>, which \<^verbatim>\<open>makeId\<close> and the coin flips
  of two Hard templates call directly. Each is a stream of numbers, consumed from the
  front; the pair of them is the state that generation threads through. (A caller that
  supplies no \<^verbatim>\<open>rnd\<close> gets \<^verbatim>\<open>Math.random\<close> for it; such a run is the run of the model on
  the numbers that the calls of each kind received.) A source such as \<^verbatim>\<open>Math.random\<close>
  gives doubles that are at least 0 and less than 1: \<open>unitDraws\<close>.
\<close>

record randomness =
  rnd :: "real stream"
  mathRandom :: "real stream"

definition unitDraws :: "real stream \<Rightarrow> bool" where
  "unitDraws rs \<longleftrightarrow> (\<forall>r \<in> sset rs. isDouble r \<and> 0 \<le> r \<and> r < 1)"

definition nextRnd :: "randomness \<Rightarrow> real \<times> randomness" where
  "nextRnd st = (shd (rnd st), st\<lparr>rnd := stl (rnd st)\<rparr>)"

definition nextMathRandom :: "randomness \<Rightarrow> real \<times> randomness" where
  "nextMathRandom st = (shd (mathRandom st), st\<lparr>mathRandom := stl (mathRandom st)\<rparr>)"

definition makeId :: "randomness \<Rightarrow> ident \<times> randomness" where
  "makeId st = nextMathRandom st"

text \<open>
  \<^verbatim>\<open>pickRandom\<close>: an empty array gives \<^verbatim>\<open>null\<close> without a draw; an index outside the array
  reads \<^verbatim>\<open>undefined\<close>. The index is \<^verbatim>\<open>Math.floor(rnd() * arr.length)\<close>, the integer part of
  the rounded product.
\<close>

definition pickRandom :: "'a list \<Rightarrow> randomness \<Rightarrow> 'a option \<times> randomness" where
  "pickRandom arr st =
     (if arr = [] then (None, st)
      else
        let (r, st') = nextRnd st;
            i = \<lfloor>roundDouble (r * real (length arr))\<rfloor>
        in (if 0 \<le> i \<and> i < int (length arr) then Some (arr ! nat i) else None, st'))"

text \<open>
  The swap \<^verbatim>\<open>[arr[i], arr[j]] = [arr[j], arr[i]]\<close> of \<^verbatim>\<open>shuffleInPlace\<close>. Array elements are
  options, \<open>None\<close> for \<^verbatim>\<open>undefined\<close> and for a hole. An index \<open>j\<close> past the end extends
  the array; a negative \<open>j\<close> writes a property that is no element.
\<close>

definition swap :: "'a option list \<Rightarrow> nat \<Rightarrow> int \<Rightarrow> 'a option list" where
  "swap arr i j =
     (let vi = arr ! i;
          vj = (if 0 \<le> j \<and> j < int (length arr) then arr ! nat j else None);
          arr1 = arr[i := vj]
      in if j < 0 then arr1
         else if nat j < length arr then arr1[nat j := vi]
         else arr1 @ replicate (nat j - length arr) None @ [vi])"

text \<open>The loop \<^verbatim>\<open>for (let i = arr.length - 1; i > 0; i--)\<close>, by recursion on \<open>i\<close>.\<close>

fun shuffleFrom :: "nat \<Rightarrow> 'a option list \<Rightarrow> randomness \<Rightarrow> 'a option list \<times> randomness" where
  "shuffleFrom 0 arr st = (arr, st)"
| "shuffleFrom (Suc k) arr st =
     (let (r, st') = nextRnd st;
          j = \<lfloor>roundDouble (r * real (Suc k + 1))\<rfloor>
      in shuffleFrom k (swap arr (Suc k) j) st')"

definition shuffleInPlace :: "'a option list \<Rightarrow> randomness \<Rightarrow> 'a option list \<times> randomness" where
  "shuffleInPlace arr st = shuffleFrom (length arr - 1) arr st"

section \<open>Data helpers\<close>

text \<open>
  \<^verbatim>\<open>groupByState\<close> builds a plain object keyed by state name. Reading a key that the
  object does not have itself finds the member of that name of \<^verbatim>\<open>Object.prototype\<close>, if
  there is one: a function or an object, which the test \<^verbatim>\<open>!byState[s.state]\<close> takes for
  an array already there, and whose missing \<^verbatim>\<open>push\<close> then raises a \<^verbatim>\<open>TypeError\<close>. The
  result is \<open>None\<close> for that exception.
\<close>

definition objectPrototypeMembers :: "string list" where
  "objectPrototypeMembers =
     [''constructor'', ''__defineGetter__'', ''__defineSetter__'', ''hasOwnProperty'',
      ''__lookupGetter__'', ''__lookupSetter__'', ''isPrototypeOf'', ''propertyIsEnumerable'',
      ''toString'', ''valueOf'', ''__proto__'', ''toLocaleString'']"

fun groupInto ::
  "(string \<times> senator list) list \<Rightarrow> senator list \<Rightarrow> (string \<times> senator list) list option" where
  "groupInto byState [] = Some byState"
| "groupInto byState (s # rest) =
     (case map_of byState (state s) of
        Some ms \<Rightarrow>
          groupInto (map (\<lambda>(k, v). if k = state s then (k, v @ [s]) else (k, v)) byState) rest
      | None \<Rightarrow>
          if state s \<in> set objectPrototypeMembers then None
          else groupInto (byState @ [(state s, [s])]) rest)"

definition groupByState :: "senator list \<Rightarrow> (string \<times> senator list) list option" where
  "groupByState senators = groupInto [] senators"

text \<open>
  \<^verbatim>\<open>Object.keys\<close> lists first the keys that are array indices (the decimal numerals of the
  integers below \<open>2 ^ 32 - 1\<close>), in ascending order, then the other keys in the order
  of their insertion.
\<close>

definition decimalValue :: "string \<Rightarrow> nat" where
  "decimalValue s = foldl (\<lambda>a c. 10 * a + (of_char c - 48)) 0 s"

definition isArrayIndex :: "string \<Rightarrow> bool" where
  "isArrayIndex s \<longleftrightarrow>
     s \<noteq> [] \<and> list_all (\<lambda>c. is_digit (of_char c)) s \<and> (length s = 1 \<or> hd s \<noteq> CHR ''0'') \<and>
     decimalValue s < 2 ^ 32 - 1"

definition objectKeys :: "(string \<times> 'a) list \<Rightarrow> string list" where
  "objectKeys obj =
     sort_key decimalValue (filter isArrayIndex (map fst obj))
     @ filter (\<lambda>k. \<not> isArrayIndex k) (map fst obj)"

definition truthy :: "string option \<Rightarrow> bool" where
  "truthy v = (case v of None \<Rightarrow> False | Some s \<Rightarrow> s \<noteq> [])"

definition getByStatePartySeniority ::
  "senator list \<Rightarrow> string option \<Rightarrow> string option \<Rightarrow> string option \<Rightarrow> senator list" where
  "getByStatePartySeniority senators st pa se =
     filter (\<lambda>s.
        if truthy st \<and> Some (state s) \<noteq> st then False
        else if truthy pa \<and> Some (party s) \<noteq> pa then False
        else if truthy se \<and> Some (seniority s) \<noteq> se then False
        else True) senators"

text \<open>\<^verbatim>\<open>[...new Set(...)]\<close> keeps the first occurrence of each state, in order.\<close>

definition uniqueStates :: "senator list \<Rightarrow> string list" where
  "uniqueStates senators =
     foldl (\<lambda>seen x. if x \<in> set seen then seen else seen @ [x]) [] (map state senators)"

definition PORTRAIT_BASE :: string where
  "PORTRAIT_BASE = ''assets/''"

definition portraitUrl :: "string \<Rightarrow> string" where
  "portraitUrl p = (if take 4 p = ''http'' then p else PORTRAIT_BASE @ p)"

definition Templates :: "difficulty \<Rightarrow> template_kind list" where
  "Templates d =
     (case d of
        Easy \<Rightarrow>
          [\<lparr>key = ''state_any'', kind = ''text''\<rparr>,
           \<lparr>key = ''state_party_any'', kind = ''text''\<rparr>,
           \<lparr>key = ''state_seniority'', kind = ''text''\<rparr>,
           \<lparr>key = ''party_of_portrait'', kind = ''text''\<rparr>,
           \<lparr>key = ''state_of_portrait'', kind = ''text''\<rparr>]
      | Hard \<Rightarrow>
          [\<lparr>key = ''portrait_only'', kind = ''portrait''\<rparr>,
           \<lparr>key = ''state_seniority'', kind = ''text''\<rparr>,
           \<lparr>key = ''state_party_seniority'', kind = ''text''\<rparr>,
           \<lparr>key = ''party_of_random'', kind = ''text''\<rparr>,
           \<lparr>key = ''state_of_random'', kind = ''text''\<rparr>])"

section \<open>Generator: template fillers\<close>

text \<open>
  What a call of the generator comes to: the value it returns, or the \<^verbatim>\<open>TypeError\<close> it
  raises.
\<close>

datatype generated = Returned "error + question" | TypeError

text \<open>
  Every filler takes the randomness state and returns its result with the state left
  behind. The messages to \<^verbatim>\<open>logValidation\<close> are written to the page and the console and
  never read back; they are left out. The field \<^verbatim>\<open>type\<close> of a template entry is called
  \<open>kind\<close> here, since a question has a field \<^verbatim>\<open>type\<close> of its own.
\<close>

definition portraitOnly ::
  "difficulty \<Rightarrow> senator list \<Rightarrow> randomness \<Rightarrow> (error + question) \<times> randomness" where
  "portraitOnly d senators st =
     (let (s, st) = pickRandom senators st
      in case s of
           None \<Rightarrow>
             (Inl (errorObject ''data_missing'' ''Portrait asset not found.''
                     (Some [(''senator'', Some ''unknown'')])), st)
         | Some s \<Rightarrow>
             if portrait s = [] then
               (Inl (errorObject ''data_missing'' ''Portrait asset not found.''
                       (Some [(''senator'', Some (if name s = [] then ''unknown'' else name s))])), st)
             else
               let (i, st) = makeId st
               in (Inr \<lparr>id_q = i,
                         template = ''Who is this senator?'',
                         filled_variables = [(''portrait_image'', Some (portraitUrl (portrait s)))],
                         difficulty = d,
                         correct_answers = [officialName s],
                         allowed_answer_modes =
                           (if d = Easy then [''last_name'', ''full_name''] else [''full_name'']),
                         type = ''portrait'',
                         portrait_image = None\<rparr>, st))"

text \<open>
  In \<^verbatim>\<open>stateAny\<close> the picked state indexes the object \<^verbatim>\<open>byState\<close>; a picked value that is
  \<^verbatim>\<open>undefined\<close> is looked up under the key \<^verbatim>\<open>"undefined"\<close>. This filler alone calls
  \<^verbatim>\<open>groupByState\<close>, so it alone can raise.
\<close>

definition stateAny :: "senator list \<Rightarrow> randomness \<Rightarrow> generated \<times> randomness" where
  "stateAny senators st =
     (case groupByState senators of
        None \<Rightarrow> (TypeError, st)
      | Some byState \<Rightarrow>
          let states = filter (\<lambda>k. case map_of byState k of None \<Rightarrow> False
                                     | Some ms \<Rightarrow> length ms \<ge> 1)
                         (objectKeys byState);
              (picked, st) = pickRandom states st;
              matches = (case map_of byState (case picked of None \<Rightarrow> ''undefined'' | Some k \<Rightarrow> k) of
                           None \<Rightarrow> [] | Some ms \<Rightarrow> ms)
          in if length matches < 1 then
               (Returned (Inl (errorObject ''unsolvable_template''
                                 ''No senators found for selected state.''
                                 (Some [(''state'', picked)]))), st)
             else
               let (i, st) = makeId st
               in (Returned (Inr \<lparr>id_q = i,
                         template = ''Name a senator from {state}.'',
                         filled_variables = [(''state'', picked)],
                         difficulty = Easy,
                         correct_answers = map officialName matches,
                         allowed_answer_modes = [''last_name'', ''full_name''],
                         type = ''text'',
                         portrait_image = None\<rparr>), st))"

definition parties :: "string list" where
  "parties = [''Democrat'', ''Republican'', ''Independent'']"

definition seniorities :: "string list" where
  "seniorities = [''Senior'', ''Junior'']"

text \<open>
  The bounded retry loops count the attempts that remain; \<open>0\<close> is the exit of the
  \<^verbatim>\<open>for\<close> loop, where the typed failure is returned.
\<close>

fun statePartyAnyLoop ::
  "nat \<Rightarrow> senator list \<Rightarrow> randomness \<Rightarrow> (error + question) \<times> randomness" where
  "statePartyAnyLoop 0 senators st =
     (Inl (errorObject ''unsolvable_template''
             ''Could not find a state+party with at least one match for Easy.'' None), st)"
| "statePartyAnyLoop (Suc n) senators st =
     (let (st0, st) = pickRandom (uniqueStates senators) st;
          (pa, st) = pickRandom parties st;
          matches = getByStatePartySeniority senators st0 pa None
      in if length matches \<ge> 1 then
           let (i, st) = makeId st
           in (Inr \<lparr>id_q = i,
                     template = ''Name a {party} senator from {state}.'',
                     filled_variables = [(''party'', pa), (''state'', st0)],
                     difficulty = Easy,
                     correct_answers = map officialName matches,
                     allowed_answer_modes = [''last_name'', ''full_name''],
                     type = ''text'',
                     portrait_image = None\<rparr>, st)
         else statePartyAnyLoop n senators st)"

definition statePartyAny :: "senator list \<Rightarrow> randomness \<Rightarrow> (error + question) \<times> randomness" where
  "statePartyAny senators st = statePartyAnyLoop 30 senators st"

fun stateSeniorityLoop ::
  "nat \<Rightarrow> difficulty \<Rightarrow> senator list \<Rightarrow> randomness \<Rightarrow> (error + question) \<times> randomness" where
  "stateSeniorityLoop 0 d senators st =
     (Inl (errorObject ''ambiguous_answer''
             ''Could not enforce uniqueness for state+seniority.'' None), st)"
| "stateSeniorityLoop (Suc n) d senators st =
     (let (st0, st) = pickRandom (uniqueStates senators) st;
          (se, st) = pickRandom seniorities st;
          matches = getByStatePartySeniority senators st0 None se
      in if length matches = 1 then
           let (i, st) = makeId st
           in (Inr \<lparr>id_q = i,
                     template = ''Name the {seniority} Senator from {state}.'',
                     filled_variables = [(''state'', st0), (''seniority'', se)],
                     difficulty = d,
                     correct_answers = [officialName (matches ! 0)],
                     allowed_answer_modes =
                       (if d = Easy then [''last_name'', ''full_name''] else [''full_name'']),
                     type = ''text'',
                     portrait_image = None\<rparr>, st)
         else stateSeniorityLoop n d senators st)"

definition stateSeniority ::
  "difficulty \<Rightarrow> senator list \<Rightarrow> randomness \<Rightarrow> (error + question) \<times> randomness" where
  "stateSeniority d senators st = stateSeniorityLoop 40 d senators st"

fun statePartySeniorityLoop ::
  "nat \<Rightarrow> senator list \<Rightarrow> randomness \<Rightarrow> (error + question) \<times> randomness" where
  "statePartySeniorityLoop 0 senators st =
     (Inl (errorObject ''ambiguous_answer''
             ''Could not enforce uniqueness for state+party+seniority in Hard.'' None), st)"
| "statePartySeniorityLoop (Suc n) senators st =
     (let (st0, st) = pickRandom (uniqueStates senators) st;
          (pa, st) = pickRandom parties st;
          (se, st) = pickRandom seniorities st;
          matches = getByStatePartySeniority senators st0 pa se
      in if length matches = 1 then
           let (i, st) = makeId st
           in (Inr \<lparr>id_q = i,
                     template = ''Name the {party} {seniority} Senator from {state}.'',
                     filled_variables = [(''party'', pa), (''seniority'', se), (''state'', st0)],
                     difficulty = Hard,
                     correct_answers = [officialName (matches ! 0)],
                     allowed_answer_modes = [''full_name''],
                     type = ''text'',
                     portrait_image = None\<rparr>, st)
         else statePartySeniorityLoop n senators st)"

definition statePartySeniority ::
  "senator list \<Rightarrow> randomness \<Rightarrow> (error + question) \<times> randomness" where
  "statePartySeniority senators st = statePartySeniorityLoop 50 senators st"

definition partyOfPortrait :: "senator list \<Rightarrow> randomness \<Rightarrow> (error + question) \<times> randomness" where
  "partyOfPortrait senators st =
     (let (s, st) = pickRandom senators st
      in case s of
           None \<Rightarrow> (Inl (errorObject ''data_missing'' ''No senator found.'' None), st)
         | Some s \<Rightarrow>
             let (i, st) = makeId st
             in (Inr \<lparr>id_q = i,
                       template = ''Which party does {name} belong to?'',
                       filled_variables = [(''name'', Some (officialName s))],
                       difficulty = Easy,
                       correct_answers = [party s],
                       allowed_answer_modes = [''full_name''],
                       type = ''party_portrait'',
                       portrait_image = Some (portraitUrl (portrait s))\<rparr>, st))"

definition stateOfPortrait :: "senator list \<Rightarrow> randomness \<Rightarrow> (error + question) \<times> randomness" where
  "stateOfPortrait senators st =
     (let (s, st) = pickRandom senators st
      in case s of
           None \<Rightarrow> (Inl (errorObject ''data_missing'' ''No senator found.'' None), st)
         | Some s \<Rightarrow>
             let (i, st) = makeId st
             in (Inr \<lparr>id_q = i,
                       template = ''Which state does {name} represent?'',
                       filled_variables = [(''name'', Some (officialName s))],
                       difficulty = Easy,
                       correct_answers = [state s],
                       allowed_answer_modes = [''full_name''],
                       type = ''state_portrait'',
                       portrait_image = Some (portraitUrl (portrait s))\<rparr>, st))"

text \<open>
  The two randomized Hard templates flip their coin on \<^verbatim>\<open>Math.random\<close>, not on \<^verbatim>\<open>rnd\<close>,
  before \<^verbatim>\<open>makeId\<close> draws the identifier from the same source.
\<close>

definition partyOfRandom ::
  "difficulty \<Rightarrow> senator list \<Rightarrow> randomness \<Rightarrow> (error + question) \<times> randomness" where
  "partyOfRandom d senators st =
     (let (s, st) = pickRandom senators st
      in case s of
           None \<Rightarrow> (Inl (errorObject ''data_missing'' ''No senator found.'' None), st)
         | Some s \<Rightarrow>
             let (c, st) = nextMathRandom st;
                 coin = (c < 0.5);
                 (i, st) = makeId st
             in (Inr \<lparr>id_q = i,
                       template = (if coin then ''Which party does this senator belong to?''
                                   else ''Which party does {name} belong to?''),
                       filled_variables = (if coin then [] else [(''name'', Some (officialName s))]),
                       difficulty = Hard,
                       correct_answers = [party s],
                       allowed_answer_modes = [''full_name''],
                       type = (if coin then ''party_portrait_hard'' else ''party_text_hard''),
                       portrait_image = Some (portraitUrl (portrait s))\<rparr>, st))"

definition stateOfRandom ::
  "difficulty \<Rightarrow> senator list \<Rightarrow> randomness \<Rightarrow> (error + question) \<times> randomness" where
  "stateOfRandom d senators st =
     (let (s, st) = pickRandom senators st
      in case s of
           None \<Rightarrow> (Inl (errorObject ''data_missing'' ''No senator found.'' None), st)
         | Some s \<Rightarrow>
             let (c, st) = nextMathRandom st;
                 coin = (c < 0.5);
                 (i, st) = makeId st
             in (Inr \<lparr>id_q = i,
                       template = (if coin then ''Which state does this senator represent?''
                                   else ''Which state does {name} represent?''),
                       filled_variables = (if coin then [] else [(''name'', Some (officialName s))]),
                       difficulty = Hard,
                       correct_answers = [state s],
                       allowed_answer_modes = [''full_name''],
                       type = (if coin then ''state_portrait_hard'' else ''state_text_hard''),
                       portrait_image = Some (portraitUrl (portrait s))\<rparr>, st))"

section \<open>Generator: public entry\<close>

definition tryTemplate ::
  "string \<Rightarrow> difficulty \<Rightarrow> senator list \<Rightarrow> randomness \<Rightarrow> generated \<times> randomness" where
  "tryTemplate k d senators st =
     (if k = ''portrait_only'' then apfst Returned (portraitOnly d senators st)
      else if k = ''state_any'' then stateAny senators st
      else if k = ''state_party_any'' then apfst Returned (statePartyAny senators st)
      else if k = ''state_seniority'' then apfst Returned (stateSeniority d senators st)
      else if k = ''state_party_seniority'' then apfst Returned (statePartySeniority senators st)
      else if k = ''party_of_portrait'' then apfst Returned (partyOfPortrait senators st)
      else if k = ''state_of_portrait'' then apfst Returned (stateOfPortrait senators st)
      else if k = ''party_of_random'' then apfst Returned (partyOfRandom d senators st)
      else if k = ''state_of_random'' then apfst Returned (stateOfRandom d senators st)
      else (Returned (Inl (errorObject ''unknown_template'' ''Unknown template key.''
                             (Some [(''key'', Some k)]))), st))"

text \<open>
  The loop of \<^verbatim>\<open>generateQuestion\<close> over the shuffled array. Reading \<^verbatim>\<open>t.key\<close> raises a
  \<^verbatim>\<open>TypeError\<close> when the array holds \<^verbatim>\<open>undefined\<close> at the position reached; an exception
  of a filler passes through.
\<close>

fun tryEach ::
  "template_kind option list \<Rightarrow> difficulty \<Rightarrow> senator list \<Rightarrow> randomness \<Rightarrow>
     generated \<times> randomness" where
  "tryEach [] d senators st =
     (Returned (Inl (errorObject ''unsolvable_template''
                       ''No suitable template could be generated for the current dataset.'' None)), st)"
| "tryEach (t # ts) d senators st =
     (case t of
        None \<Rightarrow> (TypeError, st)
      | Some t \<Rightarrow>
          (case tryTemplate (key t) d senators st of
             (TypeError, st) \<Rightarrow> (TypeError, st)
           | (Returned q, st) \<Rightarrow>
               if \<not> isError q then (Returned q, st) else tryEach ts d senators st))"

definition generateQuestion ::
  "difficulty \<Rightarrow> senator list \<Rightarrow> randomness \<Rightarrow> generated \<times> randomness" where
  "generateQuestion d senators st =
     (let allowed = map Some (Templates d);
          (allowed, st) = shuffleInPlace allowed st
      in tryEach allowed d senators st)"

section \<open>Validation\<close>

text \<open>
  \<^verbatim>\<open>validateAnswer\<close>, statement by statement. The two \<^verbatim>\<open>for\<close> loops return on the first
  answer that passes their test, with a value that does not depend on the answer, so
  each is a test for the existence of such an answer. The source has an unmatched
  closing brace after the second loop; the model follows the statements in the order
  in which they are written, the ambiguity check after both loops.
\<close>

definition validateAnswer :: "question \<Rightarrow> string \<Rightarrow> userAnswer" where
  "validateAnswer q userInput =
     (let mode = difficulty q;
          inputNorm = normalizeName userInput;
          correctNorms = map normalizeName (correct_answers q);
          ok = (\<lambda>k fb. \<lparr>question_id = id_q q, user_input = userInput, is_correct = True,
                          accepted_as = k, feedback = fb\<rparr>)
      in if mode = Hard then
           let exact = (inputNorm \<in> set correctNorms)
           in \<lparr>question_id = id_q q, user_input = userInput, is_correct = exact,
               accepted_as = ''full_name'',
               feedback =
                 (if exact then ''Correct.''
                  else ''Hard mode requires the full official name. Correct answer: '' @ [CHR 0x27]
                       @ (case correct_answers q of [] \<Rightarrow> ''undefined'' | a # _ \<Rightarrow> a)
                       @ [CHR 0x27] @ ''.'')\<rparr>
         else if inputNorm \<in> set correctNorms then ok ''full_name'' ''Correct.''
         else
           let last' = lastNameOf inputNorm;
               matchesByLast = filter (\<lambda>a. lastNameOf a = last') (correct_answers q)
           in if length matchesByLast = 1 \<and> last' \<noteq> [] then ok ''last_name'' ''Correct.''
              else if list_ex (\<lambda>ans. withinMisspellingThreshold inputNorm ans) (correct_answers q)
                then ok ''misspelling_correction'' ''Correct.''
              else if list_ex (\<lambda>ans. withinMisspellingThreshold last' (lastNameOf ans) \<and> last' \<noteq> [])
                        (correct_answers q)
                then ok ''misspelling_correction'' ''Correct.''
              else if length matchesByLast > 1 then
                \<lparr>question_id = id_q q, user_input = userInput, is_correct = False,
                 accepted_as = ''full_name'',
                 feedback = ''Ambiguous last name. Try the full name or include more detail.''\<rparr>
              else
                \<lparr>question_id = id_q q, user_input = userInput, is_correct = False,
                 accepted_as = ''full_name'',
                 feedback = ''Not quite. Easy accepts last names and mild misspellings.''\<rparr>)"

section \<open>Session state\<close>

text \<open>
  The live object of \<^verbatim>\<open>GameState\<close>. The two readings of the clock,
  \<^verbatim>\<open>new Date().toISOString()\<close>, are arguments of the operations. The elapsed time of the
  summary is a difference of clock readings and is left out of \<open>toResults\<close>.
\<close>

record game_state =
  mode_difficulty :: difficulty
  questions :: "question list"
  current_index :: nat
  answers :: "userAnswer list"
  score :: nat
  start_time :: string
  end_time :: "string option"
  completed :: bool

definition create :: "difficulty \<Rightarrow> question list \<Rightarrow> string \<Rightarrow> game_state" where
  "create d qs now =
     \<lparr>mode_difficulty = d, questions = qs, current_index = 0, answers = [], score = 0,
      start_time = now, end_time = None, completed = False\<rparr>"

text \<open>\<^verbatim>\<open>questions?.[current_index] || null\<close>\<close>

definition currentQuestion :: "game_state \<Rightarrow> question option" where
  "currentQuestion s =
     (if current_index s < length (questions s) then Some (questions s ! current_index s)
      else None)"

definition recordAnswer :: "game_state \<Rightarrow> userAnswer \<Rightarrow> string \<Rightarrow> game_state" where
  "recordAnswer s userAnswer now =
     (let s = s\<lparr>answers := answers s @ [userAnswer]\<rparr>;
          s = (if is_correct userAnswer then s\<lparr>score := score s + 1\<rparr> else s);
          s = s\<lparr>current_index := current_index s + 1\<rparr>
      in if current_index s \<ge> length (questions s)
         then s\<lparr>completed := True, end_time := Some now\<rparr>
         else s)"

text \<open>
  The percentage is \<^verbatim>\<open>Math.round((correct / total) * 100)\<close>: the quotient is rounded to a
  double, its product with 100 is rounded to a double, and that is rounded to an
  integer. With no question at all the quotient is \<^verbatim>\<open>NaN\<close> (no correct answer) or
  \<^verbatim>\<open>Infinity\<close>.
\<close>

datatype percentage = Percent int | NaN | Infinity

record results =
  total_questions :: nat
  correct_answers_r :: nat
  incorrect_answers :: int
  score_r :: percentage
  answers_detail :: "userAnswer list"

definition toResults :: "game_state \<Rightarrow> results" where
  "toResults s =
     (let total = length (questions s);
          correct = length (filter is_correct (answers s));
          incorrect = int total - int correct;
          sc = (if total = 0 then (if correct = 0 then NaN else Infinity)
                else Percent (mathRound (roundDouble
                       (roundDouble (real correct / real total) * 100))))
      in \<lparr>total_questions = total, correct_answers_r = correct, incorrect_answers = incorrect,
          score_r = sc, answers_detail = answers s\<rparr>)"

section \<open>Notions used in the statements and proofs\<close>

text \<open>Normal forms of names: what \<open>normalizeName\<close> produces, as code points.\<close>

fun no_double :: "codepoint list \<Rightarrow> bool" where
  "no_double (c # d # cs) = (\<not> (c = 32 \<and> d = 32) \<and> no_double (d # cs))"
| "no_double cs = True"

definition tidy :: "codepoint list \<Rightarrow> bool" where
  "tidy s \<longleftrightarrow>
     (\<forall>n \<in> set s. is_lower n \<or> is_digit n \<or> n = 32) \<and> no_double s \<and>
     (s \<noteq> [] \<longrightarrow> hd s \<noteq> 32 \<and> last s \<noteq> 32)"

text \<open>The meaning of the cells of the Levenshtein table: distances between prefixes.\<close>

definition dist_upto :: "'a list \<Rightarrow> 'a list \<Rightarrow> nat \<Rightarrow> nat \<Rightarrow> nat" where
  "dist_upto a b i j = edit_distance (take i a) (take j b)"

definition table_ok :: "'a list \<Rightarrow> 'a list \<Rightarrow> nat list list \<Rightarrow> bool" where
  "table_ok a b dp \<longleftrightarrow>
     length dp = length a + 1 \<and> (\<forall>i \<le> length a. length (dp ! i) = length b + 1)"

definition filled :: "'a list \<Rightarrow> 'a list \<Rightarrow> nat list list \<Rightarrow> nat \<Rightarrow> nat \<Rightarrow> bool" where
  "filled a b dp i j \<longleftrightarrow>
     (\<forall>i' j'. i' \<le> length a \<and> j' \<le> length b \<and> (i' < i \<or> j' = 0 \<or> (i' = i \<and> j' < j))
        \<longrightarrow> dp ! i' ! j' = dist_upto a b i' j')"

text \<open>
  \<open>failAll ts d senators st\<close>: every template of \<open>ts\<close>, tried in order from the state
  \<open>st\<close>, fails; the result is the state left behind.
\<close>

fun failAll ::
  "template_kind list \<Rightarrow> difficulty \<Rightarrow> senator list \<Rightarrow> randomness \<Rightarrow> randomness option" where
  "failAll [] d senators st = Some st"
| "failAll (t # ts) d senators st =
     (case tryTemplate (key t) d senators st of
        (Returned q, st') \<Rightarrow> if isError q then failAll ts d senators st' else None
      | (TypeError, st') \<Rightarrow> None)"

text \<open>
  Two questions that differ at most in their identifier; two questions with the same
  answer key; and the questions of the two templates that flip a coin on
  \<^verbatim>\<open>Math.random\<close>, known by their type.
\<close>

definition sameButId :: "question \<Rightarrow> question \<Rightarrow> bool" where
  "sameButId q1 q2 \<longleftrightarrow> q1\<lparr>id_q := 0\<rparr> = q2\<lparr>id_q := 0\<rparr>"

definition sameAnswerKey :: "question \<Rightarrow> question \<Rightarrow> bool" where
  "sameAnswerKey q1 q2 \<longleftrightarrow>
     difficulty q1 = difficulty q2 \<and> correct_answers q1 = correct_answers q2 \<and>
     allowed_answer_modes q1 = allowed_answer_modes q2 \<and> portrait_image q1 = portrait_image q2"

definition coinTyped :: "question \<Rightarrow> bool" where
  "coinTyped q \<longleftrightarrow>
     type q \<in> set [''party_portrait_hard'', ''party_text_hard'',
                    ''state_portrait_hard'', ''state_text_hard'']"

text \<open>
  Two outcomes are alike when both raise, or both return the same failure, or both
  return a question and the two questions are the same but for the identifier, unless
  both are of a coin type, when they have the same answer key.
\<close>

definition alikeGenerated :: "generated \<Rightarrow> generated \<Rightarrow> bool" where
  "alikeGenerated g1 g2 \<longleftrightarrow>
     (case (g1, g2) of
        (Returned (Inl e1), Returned (Inl e2)) \<Rightarrow> e1 = e2
      | (Returned (Inr q1), Returned (Inr q2)) \<Rightarrow>
          sameAnswerKey q1 q2 \<and> (sameButId q1 q2 \<or> coinTyped q1 \<and> coinTyped q2)
      | (TypeError, TypeError) \<Rightarrow> True
      | _ \<Rightarrow> False)"

definition alike :: "generated \<times> randomness \<Rightarrow> generated \<times> randomness \<Rightarrow> bool" where
  "alike r1 r2 \<longleftrightarrow> rnd (snd r1) = rnd (snd r2) \<and> alikeGenerated (fst r1) (fst r2)"

text \<open>A roster as the loader delivers it: no senator without a state.\<close>

definition namedStates :: "senator list \<Rightarrow> bool" where
  "namedStates senators \<longleftrightarrow> (\<forall>s \<in> set senators. state s \<noteq> [])"

text \<open>A roster none of whose states has the name of a member of \<^verbatim>\<open>Object.prototype\<close>.\<close>

definition plainStates :: "senator list \<Rightarrow> bool" where
  "plainStates senators \<longleftrightarrow> (\<forall>s \<in> set senators. state s \<notin> set objectPrototypeMembers)"

text \<open>
  A filler's result whose question, if it is one and allows the full name only, has a
  single correct answer.
\<close>

definition singleAnswered :: "(error + question) \<times> randomness \<Rightarrow> bool" where
  "singleAnswered r \<longleftrightarrow>
     (case fst r of
        Inl e \<Rightarrow> True
      | Inr q \<Rightarrow> allowed_answer_modes q \<noteq> [''full_name''] \<or> length (correct_answers q) = 1)"

text \<open>A filler's result whose error, if it is one, carries a type.\<close>

definition typedFailure :: "(error + question) \<times> randomness \<Rightarrow> bool" where
  "typedFailure r \<longleftrightarrow> (case fst r of Inl e \<Rightarrow> error_type e \<noteq> [] | Inr q \<Rightarrow> True)"

text \<open>
  Session states: \<open>reachable\<close> by any sequence of \<open>recordAnswer\<close> calls after \<open>create\<close>,
  and \<open>in_play\<close>, where an answer is recorded only while a current question exists (the
  only use the interface makes of \<open>recordAnswer\<close>).
\<close>

inductive reachable :: "game_state \<Rightarrow> bool" where
  reach_create: "reachable (create d qs now)"
| reach_record: "reachable s \<Longrightarrow> reachable (recordAnswer s ua now)"

inductive in_play :: "game_state \<Rightarrow> bool" where
  play_create: "in_play (create d qs now)"
| play_record:
    "in_play s \<Longrightarrow> current_index s < length (questions s) \<Longrightarrow> in_play (recordAnswer s ua now)"

section \<open>Example inputs\<close>

text \<open>Concrete questions, rosters, random sources and sessions on which the results are run.\<close>

definition exampleQuestion :: "difficulty \<Rightarrow> string list \<Rightarrow> question" where
  "exampleQuestion d as =
     \<lparr>id_q = 0, template = ''Name a senator from {state}.'',
      filled_variables = [(''state'', Some ''Ohio'')], difficulty = d, correct_answers = as,
      allowed_answer_modes = (if d = Easy then [''last_name'', ''full_name''] else [''full_name'']),
      type = ''text'', portrait_image = None\<rparr>"

definition exampleRoster :: "senator list" where
  "exampleRoster =
     [\<lparr>name = ''John Smith'', state = ''Ohio'', party = ''Democrat'', seniority = ''Junior'',
       portrait = ''smith.jpg''\<rparr>]"

definition partyQuestion :: question where
  "partyQuestion =
     \<lparr>id_q = 0, template = ''Which party does {name} belong to?'',
      filled_variables = [(''name'', Some ''John Smith'')], difficulty = Easy,
      correct_answers = [''Democrat''], allowed_answer_modes = [''full_name''],
      type = ''party_portrait'', portrait_image = Some ''assets/smith.jpg''\<rparr>"

definition zeroDraws :: randomness where
  "zeroDraws = \<lparr>rnd = sconst 0, mathRandom = sconst 0\<rparr>"

definition exampleAnswer :: "bool \<Rightarrow> userAnswer" where
  "exampleAnswer c =
     \<lparr>question_id = 0, user_input = ''smith'', is_correct = c, accepted_as = ''full_name'',
      feedback = (if c then ''Correct.'' else ''Not quite. Easy accepts last names and mild misspellings.'')\<rparr>"

definition exampleSession :: game_state where
  "exampleSession = create Easy [exampleQuestion Easy [''John Smith''], exampleQuestion Easy [''John Smith'']] ''t0''"

definition playedSession :: "bool \<Rightarrow> game_state" where
  "playedSession c =
     recordAnswer (recordAnswer exampleSession (exampleAnswer c) ''t1'') (exampleAnswer c) ''t2''"

definition mixedSession :: game_state where
  "mixedSession =
     recordAnswer (recordAnswer exampleSession (exampleAnswer True) ''t1'') (exampleAnswer False) ''t2''"

definition prototypeRoster :: "senator list" where
  "prototypeRoster =
     [\<lparr>name = ''John Smith'', state = ''constructor'', party = ''Democrat'', seniority = ''Junior'',
       portrait = ''smith.jpg''\<rparr>]"

definition sevenEighths :: randomness where
  "sevenEighths = \<lparr>rnd = sconst (7 / 8), mathRandom = sconst 0\<rparr>"

definition halfDraws :: randomness where
  "halfDraws = \<lparr>rnd = sconst (1 / 2), mathRandom = sconst 0\<rparr>"

definition otherAmbient :: randomness where
  "otherAmbient = \<lparr>rnd = sconst 0, mathRandom = sconst (3 / 4)\<rparr>"

definition partyFirst :: "real stream" where
  "partyFirst = 7 / 8 ## 0 ## sconst (7 / 8)"

definition coinHeads :: randomness where
  "coinHeads = \<lparr>rnd = partyFirst, mathRandom = sconst 0\<rparr>"

definition coinTails :: randomness where
  "coinTails = \<lparr>rnd = partyFirst, mathRandom = sconst (3 / 4)\<rparr>"

section \<open>Normalization is idempotent\<close>

lemma is_space_blank [simp]: "is_space 32"
  by (simp add: is_space_def)

lemma not_space_lower_digit: "is_lower c \<or> is_digit c \<Longrightarrow> \<not> is_space c"
  unfolding is_lower_def is_digit_def is_space_def by auto

lemma no_double_append_left: "no_double (xs @ ys) \<Longrightarrow> no_double xs"
  by (induction xs rule: no_double.induct) auto

lemma no_double_append_right: "no_double (xs @ ys) \<Longrightarrow> no_double ys"
proof (induction xs)
  case Nil then show ?case by simp
next
  case (Cons x xs)
  then show ?case by (cases "xs @ ys") auto
qed

lemma collapseSpaces_set:
  "set (collapseSpaces s) \<subseteq> {c \<in> set s. \<not> is_space c} \<union> {32}"
proof (induction s rule: collapseSpaces.induct)
  case 1 show ?case by simp
next
  case (2 c cs)
  show ?case
  proof (cases "is_space c")
    case True
    with 2 show ?thesis by (auto dest: set_dropWhileD)
  next
    case False
    with 2 show ?thesis by auto
  qed
qed

lemma no_double_blank_Cons:
  "no_double (collapseSpaces t) \<Longrightarrow> t = [] \<or> \<not> is_space (hd t) \<Longrightarrow>
   no_double (32 # collapseSpaces t)"
proof (cases t)
  case Nil
  then show ?thesis by simp
next
  case (Cons y t')
  assume nd: "no_double (collapseSpaces t)" and "t = [] \<or> \<not> is_space (hd t)"
  then have ny: "\<not> is_space y" using Cons by simp
  then have "y \<noteq> 32" by auto
  then show ?thesis using nd ny Cons by simp
qed

lemma collapseSpaces_no_double: "no_double (collapseSpaces s)"
proof (induction s rule: collapseSpaces.induct)
  case 1 show ?case by simp
next
  case (2 c cs)
  show ?case
  proof (cases "is_space c")
    case True
    have "dropWhile is_space cs = [] \<or> \<not> is_space (hd (dropWhile is_space cs))"
      using hd_dropWhile [of is_space cs] by blast
    with 2(1) [OF True]
    have "no_double (32 # collapseSpaces (dropWhile is_space cs))"
      by (rule no_double_blank_Cons)
    then show ?thesis using True by simp
  next
    case False
    then have nb: "c \<noteq> 32" by auto
    show ?thesis
    proof (cases "collapseSpaces cs")
      case Nil
      with False show ?thesis by simp
    next
      case (Cons x r)
      with False nb 2(2) show ?thesis by simp
    qed
  qed
qed

lemma collapseSpaces_fix:
  "(\<forall>c \<in> set s. is_space c \<longrightarrow> c = 32) \<Longrightarrow> no_double s \<Longrightarrow> collapseSpaces s = s"
proof (induction s rule: collapseSpaces.induct)
  case 1 show ?case by simp
next
  case (2 c cs)
  have tl: "no_double cs" using 2(4) no_double_append_right [of "[c]" cs] by simp
  have sp: "\<forall>x \<in> set cs. is_space x \<longrightarrow> x = 32" using 2(3) by simp
  show ?case
  proof (cases "is_space c")
    case True
    then have c: "c = 32" using 2(3) by simp
    have dw: "dropWhile is_space cs = cs"
    proof (cases cs)
      case Nil then show ?thesis by simp
    next
      case (Cons d ds)
      then have "d \<noteq> 32" using 2(4) c by simp
      moreover have "d \<in> set cs" using Cons by simp
      ultimately have "\<not> is_space d" using sp by blast
      then show ?thesis using Cons by simp
    qed
    have "collapseSpaces (dropWhile is_space cs) = dropWhile is_space cs"
    proof (rule 2(1) [OF True])
      show "\<forall>x \<in> set (dropWhile is_space cs). is_space x \<longrightarrow> x = 32"
        unfolding dw by (rule sp)
      show "no_double (dropWhile is_space cs)" unfolding dw by (rule tl)
    qed
    then have "collapseSpaces cs = cs" unfolding dw .
    then show ?thesis using True c dw by (simp del: dropWhile_eq_self_iff)
  next
    case False
    have "collapseSpaces cs = cs" using 2(2) [OF False sp tl] .
    then show ?thesis using False by simp
  qed
qed

lemma trim_prefix_suffix:
  "\<exists>pre suf. s = pre @ trim s @ suf"
proof -
  let ?t = "dropWhile is_space s"
  have "s = takeWhile is_space s @ ?t" by simp
  moreover have "?t = rev (dropWhile is_space (rev ?t)) @ rev (takeWhile is_space (rev ?t))"
    by (metis rev_append rev_rev_ident takeWhile_dropWhile_id)
  ultimately have "s = takeWhile is_space s @ trim s @ rev (takeWhile is_space (rev ?t))"
    by (simp add: trim_def)
  then show ?thesis by blast
qed

lemma dropWhile_fix: "s = [] \<or> \<not> P (hd s) \<Longrightarrow> dropWhile P s = s"
  by (cases s) auto

lemma trim_ends:
  assumes "trim s \<noteq> []"
  shows "\<not> is_space (hd (trim s))" and "\<not> is_space (last (trim s))"
proof -
  let ?t = "dropWhile is_space s"
  let ?u = "dropWhile is_space (rev ?t)"
  have u: "?u \<noteq> []" using assms by (simp add: trim_def)
  then have t: "?t \<noteq> []" by (metis dropWhile.simps(1) rev.simps(1))
  have "\<not> is_space (hd ?u)" using hd_dropWhile [OF u] .
  then show "\<not> is_space (last (trim s))" using u by (simp add: trim_def last_rev)
  have nt: "\<not> is_space (hd ?t)" using hd_dropWhile [OF t] .
  have "hd ?t \<in> set (rev ?t)" using t by simp
  then have "last ?u = last (rev ?t)" using nt by (rule dropWhile_last)
  then have "last ?u = hd ?t" using t by (simp add: last_rev)
  then show "\<not> is_space (hd (trim s))" using u nt by (simp add: trim_def hd_rev)
qed

lemma trim_fix: "s = [] \<or> (\<not> is_space (hd s) \<and> \<not> is_space (last s)) \<Longrightarrow> trim s = s"
proof (cases s)
  case Nil then show ?thesis by (simp add: trim_def)
next
  case (Cons a as)
  assume "s = [] \<or> (\<not> is_space (hd s) \<and> \<not> is_space (last s))"
  then have h: "\<not> is_space (hd s)" and l: "\<not> is_space (last s)" using Cons by auto
  have "dropWhile is_space s = s" using h by (simp add: dropWhile_fix)
  moreover have "hd (rev s) = last s" by (simp only: hd_rev)
  then have "dropWhile is_space (rev s) = rev s"
    using l by (intro dropWhile_fix) simp
  ultimately show ?thesis by (simp add: trim_def)
qed

lemma tidy_pipeline:
  "tidy (trim (collapseSpaces (dropPunctuation s)))"
proof -
  let ?a = "dropPunctuation s"
  let ?b = "collapseSpaces ?a"
  have a: "\<forall>c \<in> set ?a. is_lower c \<or> is_digit c \<or> is_space c"
    by (simp add: dropPunctuation_def)
  have b: "\<forall>c \<in> set ?b. is_lower c \<or> is_digit c \<or> c = 32"
    using a collapseSpaces_set [of ?a] by auto
  obtain pre suf where ps: "?b = pre @ trim ?b @ suf"
    using trim_prefix_suffix by blast
  have "set (trim ?b) \<subseteq> set ?b" by (subst (2) ps) auto
  then have c1: "\<forall>c \<in> set (trim ?b). is_lower c \<or> is_digit c \<or> c = 32"
    using b by blast
  have "no_double (pre @ trim ?b @ suf)" using collapseSpaces_no_double [of ?a] ps by simp
  then have c2: "no_double (trim ?b)"
    using no_double_append_left no_double_append_right by blast
  have c3: "trim ?b \<noteq> [] \<longrightarrow> hd (trim ?b) \<noteq> 32 \<and> last (trim ?b) \<noteq> 32"
    using trim_ends [of ?b] by auto
  show ?thesis unfolding tidy_def using c1 c2 c3 by blast
qed

lemma normalizeName_codes: "\<exists>cs. tidy cs \<and> normalizeName s = map char_of cs"
  unfolding normalizeName_def using tidy_pipeline by blast

lemma tidy_code: "tidy cs \<Longrightarrow> n \<in> set cs \<Longrightarrow> n < 123 \<and> (is_lower n \<or> is_digit n \<or> n = 32)"
  by (auto simp: tidy_def is_lower_def is_digit_def)

lemma of_char_char_of: "n < 256 \<Longrightarrow> of_char (char_of n) = (n::nat)"
  by simp

lemma normalizeName_tidy:
  assumes t: "tidy cs"
  shows "normalizeName (map char_of cs) = map char_of cs"
proof -
  have chars: "\<forall>n \<in> set cs. is_lower n \<or> is_digit n \<or> n = 32"
    using t by (simp add: tidy_def)
  have code: "of_char (char_of n) = n" if "n \<in> set cs" for n
    using tidy_code [OF t that] by simp
  have low: "lowerChar (char_of n) = char_of n" if "n \<in> set cs" for n
    using tidy_code [OF t that] code [OF that]
    by (auto simp: lowerChar_def Let_def is_lower_def is_digit_def)
  then have 1: "toLowerCase (map char_of cs) = map char_of cs"
    by (simp add: toLowerCase_def)
  have "decompose (char_of n) = [n]" if "n \<in> set cs" for n
    using tidy_code [OF t that] code [OF that] by (simp add: decompose_def Let_def)
  then have "map decompose (map char_of cs) = map (\<lambda>n. [n]) cs" by simp
  moreover have "concat (map (\<lambda>n. [n]) xs) = xs" for xs :: "codepoint list"
    by (induction xs) simp_all
  ultimately have 2: "normalizeNFKD (map char_of cs) = cs"
    by (simp only: normalizeNFKD_def)
  have "\<forall>n \<in> set cs. \<not> (768 \<le> n \<and> n \<le> 879)" using tidy_code [OF t] by fastforce
  then have 3: "removeCombiningMarks cs = cs" by (simp add: removeCombiningMarks_def)
  have "\<forall>c \<in> set cs. is_lower c \<or> is_digit c \<or> is_space c"
    using chars is_space_blank by blast
  then have 4: "dropPunctuation cs = cs"
    unfolding dropPunctuation_def by (rule filter_True)
  have sp: "\<forall>c \<in> set cs. is_space c \<longrightarrow> c = 32"
    using chars not_space_lower_digit by blast
  have "no_double cs" using t unfolding tidy_def by blast
  with sp have 5: "collapseSpaces cs = cs"
    by (rule collapseSpaces_fix)
  have 6: "trim cs = cs"
  proof (cases "cs = []")
    case True then show ?thesis by (simp add: trim_def)
  next
    case False
    then have mem: "hd cs \<in> set cs" "last cs \<in> set cs" by simp_all
    have ends: "hd cs \<noteq> 32" "last cs \<noteq> 32"
      using t False unfolding tidy_def by blast+
    have "\<not> is_space (hd cs)" using sp mem(1) ends(1) by blast
    moreover have "\<not> is_space (last cs)" using sp mem(2) ends(2) by blast
    ultimately show ?thesis by (intro trim_fix) blast
  qed
  show ?thesis unfolding normalizeName_def 1 2 3 4 5 6 ..
qed

lemma normalizeName_idem: "normalizeName (normalizeName s) = normalizeName s"
  using normalizeName_codes [of s] normalizeName_tidy by auto

lemma a_blank: "of_char CHR '' '' = (32::nat)"
  by simp

lemma last_normalizeName:
  assumes "normalizeName x \<noteq> []"
  shows "last (normalizeName x) \<noteq> CHR '' ''"
proof -
  obtain cs where cs: "tidy cs" "normalizeName x = map char_of cs"
    using normalizeName_codes by blast
  then have ne: "cs \<noteq> []" using assms by auto
  then have l: "last cs \<in> set cs" by simp
  have "last cs \<noteq> 32" using cs(1) ne by (simp add: tidy_def)
  moreover have "of_char (char_of (last cs)) = last cs"
    using tidy_code [OF cs(1) l] by simp
  ultimately have "char_of (last cs) \<noteq> CHR '' ''"
    by (metis of_char_Char of_char_eq_iff a_blank)
  then show ?thesis using cs(2) ne by (simp add: last_map)
qed

section \<open>The table computes the edit distance\<close>

lemma edit_distance_Nil2 [simp]: "edit_distance xs [] = length xs"
  by (cases xs) simp_all

lemma edits_Nil_left: "edits (length ys) [] ys"
  by (induction ys) (auto intro: edits.intros)

lemma edits_Nil_right: "edits (length xs) xs []"
  by (induction xs) (auto intro: edits.intros)

lemma edits_edit_distance: "edits (edit_distance xs ys) xs ys"
proof (induction xs ys rule: edit_distance.induct)
  case (1 ys)
  show ?case by (simp add: edits_Nil_left)
next
  case (2 x xs)
  show ?case using edits_Nil_right [of "x # xs"] by simp
next
  case (3 x xs y ys)
  let ?d = "edit_distance xs (y # ys) + 1"
  let ?i = "edit_distance (x # xs) ys + 1"
  let ?s = "edit_distance xs ys + (if x = y then 0 else 1)"
  have d: "edits ?d (x # xs) (y # ys)" using 3(1) by (simp add: edits.delete)
  have i: "edits ?i (x # xs) (y # ys)" using 3(2) by (simp add: edits.insert)
  have s: "edits ?s (x # xs) (y # ys)"
    using 3(3) by (cases "x = y") (simp_all add: edits.keep edits.substitute)
  have "edit_distance (x # xs) (y # ys) = ?d \<or> edit_distance (x # xs) (y # ys) = ?i
        \<or> edit_distance (x # xs) (y # ys) = ?s"
    by (simp add: min_def)
  then show ?case using d i s by metis
qed

lemma edit_distance_step_bounds:
  "edit_distance (x # xs) (x # ys) \<le> edit_distance xs ys"
  "edit_distance (x # xs) (y # ys) \<le> Suc (edit_distance xs ys)"
  "edit_distance (x # xs) ys \<le> Suc (edit_distance xs ys)"
  "edit_distance xs (y # ys) \<le> Suc (edit_distance xs ys)"
proof -
  show "edit_distance (x # xs) (x # ys) \<le> edit_distance xs ys" by simp
  show "edit_distance (x # xs) (y # ys) \<le> Suc (edit_distance xs ys)"
    by (simp add: min.coboundedI2)
  show "edit_distance (x # xs) ys \<le> Suc (edit_distance xs ys)"
    by (cases ys) simp_all
  show "edit_distance xs (y # ys) \<le> Suc (edit_distance xs ys)"
    by (cases xs) simp_all
qed

lemma edit_distance_least: "edits n xs ys \<Longrightarrow> edit_distance xs ys \<le> n"
proof (induction rule: edits.induct)
  case finish
  show ?case by simp
next
  case (keep n xs ys x)
  then show ?case using edit_distance_step_bounds(1) [of x xs ys] by linarith
next
  case (substitute n xs ys x y)
  then show ?case using edit_distance_step_bounds(2) [of x xs y ys] by linarith
next
  case (delete n xs ys x)
  then show ?case using edit_distance_step_bounds(3) [of x xs ys] by linarith
next
  case (insert n xs ys y)
  then show ?case using edit_distance_step_bounds(4) [of xs y ys] by linarith
qed

lemma edits_snoc_keep: "edits n xs ys \<Longrightarrow> edits n (xs @ [z]) (ys @ [z])"
  by (induction rule: edits.induct) (auto intro: edits.intros)

lemma edits_snoc_substitute: "edits n xs ys \<Longrightarrow> edits (Suc n) (xs @ [z]) (ys @ [w])"
  by (induction rule: edits.induct) (auto intro: edits.intros)

lemma edits_snoc_delete: "edits n xs ys \<Longrightarrow> edits (Suc n) (xs @ [z]) ys"
  by (induction rule: edits.induct) (auto intro: edits.intros)

lemma edits_snoc_insert: "edits n xs ys \<Longrightarrow> edits (Suc n) xs (ys @ [w])"
  by (induction rule: edits.induct) (auto intro: edits.intros)

lemma edits_rev: "edits n xs ys \<Longrightarrow> edits n (rev xs) (rev ys)"
  by (induction rule: edits.induct)
     (auto intro: edits.finish edits_snoc_keep edits_snoc_substitute edits_snoc_delete
        edits_snoc_insert)

lemma edit_distance_rev: "edit_distance (rev xs) (rev ys) = edit_distance xs ys"
proof (rule antisym)
  show "edit_distance (rev xs) (rev ys) \<le> edit_distance xs ys"
    by (intro edit_distance_least edits_rev edits_edit_distance)
  have "edits (edit_distance (rev xs) (rev ys)) (rev (rev xs)) (rev (rev ys))"
    by (intro edits_rev edits_edit_distance)
  then show "edit_distance xs ys \<le> edit_distance (rev xs) (rev ys)"
    using edit_distance_least by fastforce
qed

lemma edit_distance_snoc:
  "edit_distance (xs @ [x]) (ys @ [y]) =
     min (min (edit_distance xs (ys @ [y]) + 1) (edit_distance (xs @ [x]) ys + 1))
         (edit_distance xs ys + (if x = y then 0 else 1))"
proof -
  have "edit_distance (xs @ [x]) (ys @ [y]) = edit_distance (x # rev xs) (y # rev ys)"
    using edit_distance_rev [of "xs @ [x]" "ys @ [y]"] by simp
  also have "\<dots> = min (min (edit_distance (rev xs) (rev (ys @ [y])) + 1)
                          (edit_distance (rev (xs @ [x])) (rev ys) + 1))
                     (edit_distance (rev xs) (rev ys) + (if x = y then 0 else 1))"
    by simp
  finally show ?thesis by (simp only: edit_distance_rev)
qed

lemma edit_distance_same [simp]: "edit_distance xs xs = 0"
  by (induction xs) simp_all

lemma edit_distance_length_diff: "length ys - length xs \<le> edit_distance xs ys"
proof (induction xs ys rule: edit_distance.induct)
  case (3 x xs y ys)
  then show ?case by (auto simp: min_def)
qed simp_all

lemma edit_distance_zero: "edit_distance xs ys = 0 \<Longrightarrow> xs = ys"
proof (induction xs ys rule: edit_distance.induct)
  case (3 x xs y ys)
  then show ?case by (auto simp: min_def split: if_splits)
qed simp_all

lemma foldl_upt_invariant:
  assumes "lo \<le> hi" and "P lo s"
    and "\<And>k t. lo \<le> k \<Longrightarrow> k < hi \<Longrightarrow> P k t \<Longrightarrow> P (Suc k) (f t k)"
  shows "P hi (foldl f s [lo..<hi])"
  using assms(1)
proof (induction rule: dec_induct)
  case base
  show ?case using assms(2) by simp
next
  case (step k)
  then show ?case using assms(3) [of k "foldl f s [lo..<k]"] by simp
qed

lemma setCell_nth:
  "i < length dp \<Longrightarrow> j < length (dp ! i) \<Longrightarrow>
   setCell dp i j v ! i' ! j' = (if i' = i \<and> j' = j then v else dp ! i' ! j')"
  by (auto simp: setCell_def nth_list_update)

lemma setCell_row_length: "length (setCell dp i j v ! k) = length (dp ! k)"
proof (cases "i < length dp")
  case True
  then show ?thesis by (simp add: setCell_def nth_list_update)
next
  case False
  then have "dp[i := (dp ! i)[j := v]] = dp" by (intro list_update_beyond) simp
  then show ?thesis by (simp add: setCell_def)
qed

lemma setCell_table_ok: "table_ok a b dp \<Longrightarrow> table_ok a b (setCell dp i j v)"
  by (simp add: table_ok_def setCell_row_length) (simp add: setCell_def)

lemma dist_upto_0_left: "j \<le> length b \<Longrightarrow> dist_upto a b 0 j = j"
  by (simp add: dist_upto_def)

lemma dist_upto_0_right: "i \<le> length a \<Longrightarrow> dist_upto a b i 0 = i"
  by (simp add: dist_upto_def)

lemma dist_upto_Suc:
  assumes "i < length a" and "j < length b"
  shows "dist_upto a b (Suc i) (Suc j) =
           min (min (dist_upto a b i (Suc j) + 1) (dist_upto a b (Suc i) j + 1))
               (dist_upto a b i j + (if a ! i = b ! j then 0 else 1))"
  using assms by (simp only: dist_upto_def take_Suc_conv_app_nth edit_distance_snoc)

lemma dist_upto_full: "dist_upto a b (length a) (length b) = edit_distance a b"
  by (simp add: dist_upto_def)

lemma initColumn:
  fixes a b :: "'a list"
  assumes "table_ok a b dp"
  shows "table_ok a b (foldl (\<lambda>dp i. setCell dp i 0 i) dp [0..<length a + 1]) \<and>
         (\<forall>i \<le> length a. foldl (\<lambda>dp i. setCell dp i 0 i) dp [0..<length a + 1] ! i ! 0 = i)"
proof -
  let ?P = "\<lambda>k t. table_ok a b t \<and> (\<forall>i < k. t ! i ! 0 = i)"
  have "?P (length a + 1) (foldl (\<lambda>dp i. setCell dp i 0 i) dp [0..<length a + 1])"
  proof (rule foldl_upt_invariant [where P = ?P])
    show "0 \<le> length a + 1" by simp
    show "?P 0 dp" using assms by simp
  next
    fix k t assume "0 \<le> k" and k: "k < length a + 1" and t: "?P k t"
    then have "k < length t" "0 < length (t ! k)" by (auto simp: table_ok_def)
    then have "setCell t k 0 k ! i ! 0 = (if i = k then k else t ! i ! 0)" for i
      by (simp add: setCell_nth)
    then show "?P (Suc k) (setCell t k 0 k)"
      using t by (auto simp: setCell_table_ok less_Suc_eq)
  qed
  then show ?thesis by (auto simp: less_Suc_eq_le)
qed

lemma initRow:
  fixes a b :: "'a list"
  assumes "table_ok a b dp" and "\<forall>i \<le> length a. dp ! i ! 0 = i"
  shows "table_ok a b (foldl (\<lambda>dp j. setCell dp 0 j j) dp [0..<length b + 1]) \<and>
         filled a b (foldl (\<lambda>dp j. setCell dp 0 j j) dp [0..<length b + 1]) 1 0"
proof -
  let ?P = "\<lambda>k t. table_ok a b t \<and> (\<forall>i \<le> length a. t ! i ! 0 = i) \<and> (\<forall>j < k. t ! 0 ! j = j)"
  have "?P (length b + 1) (foldl (\<lambda>dp j. setCell dp 0 j j) dp [0..<length b + 1])"
  proof (rule foldl_upt_invariant [where P = ?P])
    show "0 \<le> length b + 1" by simp
    show "?P 0 dp" using assms by simp
  next
    fix k t assume "0 \<le> k" and k: "k < length b + 1" and t: "?P k t"
    then have "0 < length t" "k < length (t ! 0)" by (auto simp: table_ok_def)
    then have "setCell t 0 k k ! i ! j = (if i = 0 \<and> j = k then k else t ! i ! j)" for i j
      by (simp add: setCell_nth)
    then show "?P (Suc k) (setCell t 0 k k)"
      using t by (auto simp: setCell_table_ok less_Suc_eq)
  qed
  then show ?thesis
    by (auto simp: filled_def less_Suc_eq_le dist_upto_0_left dist_upto_0_right)
qed

lemma fillCell_step:
  assumes ok: "table_ok a b dp" and f: "filled a b dp i j"
    and i: "1 \<le> i" "i \<le> length a" and j: "1 \<le> j" "j \<le> length b"
  shows "table_ok a b (fillCell a b dp i j) \<and> filled a b (fillCell a b dp i j) i (Suc j)"
proof -
  obtain i0 where i0: "i = Suc i0" using i(1) by (cases i) simp_all
  obtain j0 where j0: "j = Suc j0" using j(1) by (cases j) simp_all
  note ij = i0 j0
  have lt: "i0 < length a" "j0 < length b" using i j ij by simp_all
  have up: "dp ! i0 ! j = dist_upto a b i0 j" using f ij i j by (simp add: filled_def)
  have left: "dp ! i ! j0 = dist_upto a b i j0" using f ij i j by (simp add: filled_def)
  have diag: "dp ! i0 ! j0 = dist_upto a b i0 j0" using f ij i j by (simp add: filled_def)
  let ?v = "min (min (dp ! (i - 1) ! j + 1) (dp ! i ! (j - 1) + 1))
                (dp ! (i - 1) ! (j - 1) + (if a ! (i - 1) = b ! (j - 1) then 0 else 1))"
  have v: "?v = dist_upto a b i j"
    using up left diag by (simp add: ij dist_upto_Suc [OF lt])
  have new: "fillCell a b dp i j = setCell dp i j (dist_upto a b i j)"
    using v by (simp add: fillCell_def Let_def)
  have rng: "i < length dp" "j < length (dp ! i)" using ok i j by (auto simp: table_ok_def)
  have "filled a b (setCell dp i j (dist_upto a b i j)) i (Suc j)"
    unfolding filled_def
  proof (intro allI impI)
    fix i' j'
    assume h: "i' \<le> length a \<and> j' \<le> length b \<and> (i' < i \<or> j' = 0 \<or> i' = i \<and> j' < Suc j)"
    show "setCell dp i j (dist_upto a b i j) ! i' ! j' = dist_upto a b i' j'"
    proof (cases "i' = i \<and> j' = j")
      case True
      then show ?thesis by (simp add: setCell_nth [OF rng])
    next
      case False
      then have "i' < i \<or> j' = 0 \<or> (i' = i \<and> j' < j)" using h by auto
      then have "dp ! i' ! j' = dist_upto a b i' j'" using f h by (simp add: filled_def)
      then show ?thesis using False by (simp add: setCell_nth [OF rng])
    qed
  qed
  then show ?thesis using ok new by (simp add: setCell_table_ok)
qed

lemma fillRow:
  assumes ok: "table_ok a b dp" and f: "filled a b dp i 0"
    and i: "1 \<le> i" "i \<le> length a"
  shows "table_ok a b (foldl (\<lambda>dp j. fillCell a b dp i j) dp [1..<length b + 1]) \<and>
         filled a b (foldl (\<lambda>dp j. fillCell a b dp i j) dp [1..<length b + 1]) (Suc i) 0"
proof -
  let ?P = "\<lambda>k t. table_ok a b t \<and> filled a b t i k"
  have "?P (length b + 1) (foldl (\<lambda>dp j. fillCell a b dp i j) dp [1..<length b + 1])"
  proof (rule foldl_upt_invariant [where P = ?P])
    show "1 \<le> length b + 1" by simp
    show "?P 1 dp" using ok f by (auto simp: filled_def)
  next
    fix k t assume "1 \<le> k" "k < length b + 1" "?P k t"
    then show "?P (Suc k) (fillCell a b t i k)"
      using fillCell_step [of a b t i k] i by simp
  qed
  then have t: "table_ok a b (foldl (\<lambda>dp j. fillCell a b dp i j) dp [1..<length b + 1])"
    and r: "filled a b (foldl (\<lambda>dp j. fillCell a b dp i j) dp [1..<length b + 1]) i (length b + 1)"
    by simp_all
  have "filled a b (foldl (\<lambda>dp j. fillCell a b dp i j) dp [1..<length b + 1]) (Suc i) 0"
    unfolding filled_def
  proof (intro allI impI)
    fix i' j'
    assume h: "i' \<le> length a \<and> j' \<le> length b \<and> (i' < Suc i \<or> j' = 0 \<or> i' = Suc i \<and> j' < 0)"
    then have "i' < i \<or> j' = 0 \<or> (i' = i \<and> j' < length b + 1)" by auto
    then show "foldl (\<lambda>dp j. fillCell a b dp i j) dp [1..<length b + 1] ! i' ! j' = dist_upto a b i' j'"
      using r h unfolding filled_def by blast
  qed
  with t show ?thesis by simp
qed

lemma fillTable:
  assumes ok: "table_ok a b dp" and f: "filled a b dp 1 0"
  shows "filled a b (foldl (\<lambda>dp i. foldl (\<lambda>dp j. fillCell a b dp i j) dp [1..<length b + 1])
                       dp [1..<length a + 1]) (length a + 1) 0"
proof -
  let ?P = "\<lambda>k t. table_ok a b t \<and> filled a b t k 0"
  have "?P (length a + 1)
          (foldl (\<lambda>dp i. foldl (\<lambda>dp j. fillCell a b dp i j) dp [1..<length b + 1])
             dp [1..<length a + 1])"
  proof (rule foldl_upt_invariant [where P = ?P])
    show "1 \<le> length a + 1" by simp
    show "?P 1 dp" using ok f by simp
  next
    fix k t assume "1 \<le> k" "k < length a + 1" "?P k t"
    then show "?P (Suc k) (foldl (\<lambda>dp j. fillCell a b dp k j) t [1..<length b + 1])"
      using fillRow [of a b t k] by simp
  qed
  then show ?thesis by simp
qed

lemma levenshtein_edit_distance:
  "levenshtein a0 b0 = edit_distance (normalizeName a0) (normalizeName b0)"
proof -
  let ?a = "normalizeName a0" and ?b = "normalizeName b0"
  let ?m = "length ?a" and ?n = "length ?b"
  show ?thesis
  proof (cases "?m = 0 \<or> ?n = 0")
    case True
    then show ?thesis by (auto simp: levenshtein_def Let_def)
  next
    case False
    let ?dp0 = "replicate (?m + 1) (replicate (?n + 1) (0::nat))"
    let ?dp1 = "foldl (\<lambda>dp i. setCell dp i 0 i) ?dp0 [0..<?m + 1]"
    let ?dp2 = "foldl (\<lambda>dp j. setCell dp 0 j j) ?dp1 [0..<?n + 1]"
    let ?dp3 = "foldl (\<lambda>dp i. foldl (\<lambda>dp j. fillCell ?a ?b dp i j) dp [1..<?n + 1])
                  ?dp2 [1..<?m + 1]"
    have "table_ok ?a ?b ?dp0" by (simp add: table_ok_def less_Suc_eq_le del: replicate_Suc)
    then have 1: "table_ok ?a ?b ?dp1 \<and> (\<forall>i \<le> ?m. ?dp1 ! i ! 0 = i)"
      by (rule initColumn)
    then have 2: "table_ok ?a ?b ?dp2 \<and> filled ?a ?b ?dp2 1 0"
      by (intro initRow) simp_all
    then have "filled ?a ?b ?dp3 (?m + 1) 0"
      by (intro fillTable) simp_all
    then have "?dp3 ! ?m ! ?n = dist_upto ?a ?b ?m ?n"
      by (simp add: filled_def)
    then have "?dp3 ! ?m ! ?n = edit_distance ?a ?b"
      by (simp only: dist_upto_full)
    moreover have "levenshtein a0 b0 = ?dp3 ! ?m ! ?n"
      using False by (simp add: levenshtein_def Let_def)
    ultimately show ?thesis by simp
  qed
qed

section \<open>The misspelling threshold and Hard mode\<close>

lemmas norm_eval = normalizeName_def trim_def dropPunctuation_def removeCombiningMarks_def
  normalizeNFKD_def decompose_def toLowerCase_def lowerChar_def is_lower_def is_digit_def
  is_space_def char_of_def bit_Suc_0_iff Let_def

text \<open>
  Accented letters keep their base letter, and a no-break space counts as a space: the
  names \<^verbatim>\<open>Jos\<close> followed by e-acute, and E-acute, full stop, two no-break spaces, \<^verbatim>\<open>B\<close> and
  the fraction one half.
\<close>

lemma accents_normalized:
  "normalizeName [CHR ''J'', CHR ''o'', CHR ''s'', CHR 0xE9] = ''jose''"
  "normalizeName [CHR 0xC9, CHR ''.'', CHR 0xA0, CHR 0xA0, CHR ''B'', CHR 0xBD] = ''e b12''"
  by (simp_all add: norm_eval latin1Decompositions_def)

lemma edit_distance_is_least_script:
  "edits (edit_distance xs ys) xs ys \<and> (\<forall>n. edits n xs ys \<longrightarrow> edit_distance xs ys \<le> n)"
  using edits_edit_distance edit_distance_least by blast

lemma withinMisspellingThreshold_iff:
  "withinMisspellingThreshold input target \<longleftrightarrow>
     edit_distance (normalizeName input) (normalizeName target)
       \<le> (if length (normalizeName target) \<ge> 7 then 2 else 1)"
  by (simp add: withinMisspellingThreshold_def Let_def levenshtein_edit_distance
        normalizeName_idem)

text \<open>
  Claim C7. The fuzzy rule of Easy mode is a threshold on the unit-cost edit distance of
  the normalized strings: an input is within the misspelling threshold of a target
  exactly when that distance is at most 2 for a target of normalized length at least 7,
  and at most 1 otherwise. (\<open>edit_distance\<close> is the least cost of a script of
  insertions, deletions and substitutions, by \<open>edit_distance_is_least_script\<close>.)
\<close>

theorem misspelling_threshold:
  "withinMisspellingThreshold input target \<longleftrightarrow>
     edit_distance (normalizeName input) (normalizeName target)
       \<le> (if length (normalizeName target) \<ge> 7 then 2 else 1)"
  by (rule withinMisspellingThreshold_iff)

theorem misspelling_threshold_witness:
  "withinMisspellingThreshold ''Cat'' ''cut'' \<and> \<not> withinMisspellingThreshold ''Cat'' ''dog''"
  using misspelling_threshold [of "''Cat''" "''cut''"] misspelling_threshold [of "''Cat''" "''dog''"]
  by (simp add: norm_eval)

lemma validateAnswer_Hard:
  "difficulty q = Hard \<Longrightarrow>
   is_correct (validateAnswer q inp) \<longleftrightarrow>
     normalizeName inp \<in> set (map normalizeName (correct_answers q))"
  by (simp add: validateAnswer_def Let_def)

text \<open>
  Claim C4. For a question of difficulty Hard, the verdict is correct exactly when the
  normalized input equals one of the normalized correct answers; in particular each
  listed correct answer, submitted verbatim, is accepted, and any other input (a last
  name alone, say) is rejected unless its normal form is that of a full answer.
\<close>

theorem hard_mode_exact_match:
  assumes "difficulty q = Hard"
  shows "(is_correct (validateAnswer q inp) \<longleftrightarrow>
            normalizeName inp \<in> set (map normalizeName (correct_answers q))) \<and>
         (\<forall>a \<in> set (correct_answers q). is_correct (validateAnswer q a))"
  using assms by (simp add: validateAnswer_Hard)

theorem hard_mode_exact_match_witness:
  "difficulty (exampleQuestion Hard [''John Smith'']) = Hard \<and>
   is_correct (validateAnswer (exampleQuestion Hard [''John Smith'']) ''John Smith'') \<and>
   \<not> is_correct (validateAnswer (exampleQuestion Hard [''John Smith'']) ''smith'')"
  using hard_mode_exact_match [of "exampleQuestion Hard [''John Smith'']" "''smith''"]
  by (simp add: exampleQuestion_def norm_eval)

section \<open>Easy mode\<close>

lemma names_normalized:
  "normalizeName ''smith'' = ''smith''"
  "normalizeName ''John Smith'' = ''john smith''"
  "normalizeName ''Jane Smith'' = ''jane smith''"
  by (simp_all add: norm_eval)

lemma last_names:
  "lastNameOf ''smith'' = ''smith''"
  "lastNameOf ''John Smith'' = ''smith''"
  "lastNameOf ''Jane Smith'' = ''smith''"
  by (simp_all add: lastNameOf_def names_normalized)

lemma edit_distance_lower: "n + length xs \<le> length ys \<Longrightarrow> n \<le> edit_distance xs ys"
  using edit_distance_length_diff [of ys xs] by linarith

lemma smith_not_near_full_names:
  "\<not> withinMisspellingThreshold ''smith'' ''John Smith''"
  "\<not> withinMisspellingThreshold ''smith'' ''Jane Smith''"
proof -
  have "5 \<le> edit_distance ''smith'' ''john smith''"
    by (rule edit_distance_lower) simp
  then show "\<not> withinMisspellingThreshold ''smith'' ''John Smith''"
    by (simp add: withinMisspellingThreshold_iff names_normalized del: edit_distance.simps)
  have "5 \<le> edit_distance ''smith'' ''jane smith''"
    by (rule edit_distance_lower) simp
  then show "\<not> withinMisspellingThreshold ''smith'' ''Jane Smith''"
    by (simp add: withinMisspellingThreshold_iff names_normalized del: edit_distance.simps)
qed

lemma smith_near_smith: "withinMisspellingThreshold ''smith'' ''smith''"
  by (simp add: withinMisspellingThreshold_iff)

lemma validateAnswer_ignores_modes:
  "validateAnswer (q\<lparr>allowed_answer_modes := ms\<rparr>) inp = validateAnswer q inp"
  by (simp add: validateAnswer_def Let_def)

lemma validateAnswer_Easy:
  assumes "difficulty q = Easy"
  shows "is_correct (validateAnswer q inp) \<longleftrightarrow>
     normalizeName inp \<in> set (map normalizeName (correct_answers q)) \<or>
     (length [a \<leftarrow> correct_answers q. lastNameOf a = lastNameOf (normalizeName inp)] = 1 \<and>
        lastNameOf (normalizeName inp) \<noteq> []) \<or>
     (\<exists>a \<in> set (correct_answers q). withinMisspellingThreshold (normalizeName inp) a) \<or>
     (\<exists>a \<in> set (correct_answers q).
        withinMisspellingThreshold (lastNameOf (normalizeName inp)) (lastNameOf a) \<and>
        lastNameOf (normalizeName inp) \<noteq> [])"
  using assms by (auto simp: validateAnswer_def Let_def list_ex_iff)

lemma split_on_not_Nil: "split_on d s \<noteq> []"
  by (induction s) (auto split: list.splits)

lemma last_split_on_Nil: "last (split_on d s) = [] \<Longrightarrow> s = [] \<or> last s = d"
proof (induction s)
  case Nil
  show ?case by simp
next
  case (Cons c cs)
  obtain p ps where sp: "split_on d cs = p # ps"
    using split_on_not_Nil [of d cs] by (cases "split_on d cs") auto
  show ?case
  proof (cases "c = d")
    case True
    then have "last (split_on d cs) = []" using Cons.prems sp by simp
    then have "cs = [] \<or> last cs = d" by (rule Cons.IH)
    then show ?thesis using True by auto
  next
    case False
    then have l: "last ((c # p) # ps) = []" using Cons.prems sp by simp
    then have ps: "ps \<noteq> []" by (cases ps) auto
    then have "last (split_on d cs) = []" using l sp by simp
    then have "cs = [] \<or> last cs = d" by (rule Cons.IH)
    moreover have "cs \<noteq> []" using sp ps by (cases cs) auto
    ultimately show ?thesis by auto
  qed
qed

lemma lastNameOf_Nil: "lastNameOf x = [] \<Longrightarrow> normalizeName x = []"
proof (rule ccontr)
  assume l: "lastNameOf x = []" and n: "normalizeName x \<noteq> []"
  have "last (split_on CHR '' '' (normalizeName x)) = []"
    using l split_on_not_Nil [of "CHR '' ''" "normalizeName x"] by (simp add: lastNameOf_def Let_def)
  then have "last (normalizeName x) = CHR '' ''" using last_split_on_Nil n by blast
  then show False using last_normalizeName [OF n] by simp
qed

lemma shared_last_name_always_accepted:
  assumes "difficulty q = Easy"
    and "length [a \<leftarrow> correct_answers q. lastNameOf a = lastNameOf (normalizeName inp)] > 1"
  shows "is_correct (validateAnswer q inp)"
proof -
  let ?n = "normalizeName inp" and ?l = "lastNameOf (normalizeName inp)"
  have "[a \<leftarrow> correct_answers q. lastNameOf a = ?l] \<noteq> []" using assms(2) by auto
  then obtain a where a: "a \<in> set (correct_answers q)" "lastNameOf a = ?l"
    by (auto simp: filter_empty_conv)
  show ?thesis
  proof (cases "?l = []")
    case True
    then have "normalizeName ?n = []" by (rule lastNameOf_Nil)
    then have "?n = []" by (simp add: normalizeName_idem)
    moreover have "normalizeName a = []" using a(2) True by (intro lastNameOf_Nil) simp
    ultimately have "?n \<in> set (map normalizeName (correct_answers q))" using a(1) by force
    then show ?thesis using validateAnswer_Easy [OF assms(1)] by blast
  next
    case False
    have "withinMisspellingThreshold ?l (lastNameOf a)"
      using a(2) by (simp add: withinMisspellingThreshold_iff)
    then show ?thesis using validateAnswer_Easy [OF assms(1), of inp] a(1) False by blast
  qed
qed

text \<open>
  Claim C1, at the input of the specification: correct answers \<^verbatim>\<open>["John Smith", "Jane Smith"]\<close>,
  Easy mode, input \<^verbatim>\<open>"smith"\<close>. The claim asks for a rejection as ambiguous. The code
  reaches the loop over last names first, where \<^verbatim>\<open>"smith"\<close> is at distance 0 of the last
  name of the first answer, and accepts the input as a misspelling correction. By
  \<open>shared_last_name_always_accepted\<close> this is so for every input: the branch that
  rejects an ambiguous last name is never taken.
\<close>

theorem shared_last_name_accepted:
  "is_correct (validateAnswer (exampleQuestion Easy [''John Smith'', ''Jane Smith'']) ''smith'') \<and>
   accepted_as (validateAnswer (exampleQuestion Easy [''John Smith'', ''Jane Smith'']) ''smith'')
     = ''misspelling_correction''"
  by (simp add: validateAnswer_def exampleQuestion_def Let_def names_normalized last_names
        smith_not_near_full_names smith_near_smith)

section \<open>Rounding to a double\<close>

lemma roundEven_error: "\<bar>of_int (roundEven y) - y\<bar> \<le> 1 / 2"
  unfolding roundEven_def Let_def by (auto simp: abs_if) linarith+

lemma roundEven_of_int [simp]: "roundEven (of_int m) = m"
  by (simp add: roundEven_def)

lemma roundEven_nonneg: "0 \<le> y \<Longrightarrow> 0 \<le> roundEven y"
  unfolding roundEven_def Let_def by (auto simp: abs_if)

lemma binade:
  assumes "0 < a"
  shows "2 powr of_int \<lfloor>log 2 a\<rfloor> \<le> a" and "a < 2 powr of_int (\<lfloor>log 2 a\<rfloor> + 1)"
proof -
  have "of_int \<lfloor>log 2 a\<rfloor> \<le> log 2 a" by simp
  then have "2 powr of_int \<lfloor>log 2 a\<rfloor> \<le> 2 powr log 2 a" by (simp only: powr_le_cancel_iff)
  then show "2 powr of_int \<lfloor>log 2 a\<rfloor> \<le> a" using assms by simp
  have "log 2 a < of_int (\<lfloor>log 2 a\<rfloor> + 1)" by linarith
  then have "2 powr log 2 a < 2 powr of_int (\<lfloor>log 2 a\<rfloor> + 1)" by (simp only: powr_less_cancel_iff)
  then show "a < 2 powr of_int (\<lfloor>log 2 a\<rfloor> + 1)" using assms by simp
qed

lemma roundDouble_0 [simp]: "roundDouble 0 = 0"
  by (simp add: roundDouble_def)

lemma roundDouble_error: "\<bar>roundDouble x - x\<bar> \<le> \<bar>x\<bar> / 2 ^ 53"
proof (cases "x = 0")
  case True
  then show ?thesis by simp
next
  case False
  define e where "e = \<lfloor>log 2 \<bar>x\<bar>\<rfloor>"
  define u :: real where "u = 2 powr of_int (e - 52)"
  have u: "0 < u" by (simp add: u_def)
  have r: "roundDouble x = of_int (roundEven (x / u)) * u"
    using False by (simp add: roundDouble_def Let_def u_def e_def)
  have "of_int (roundEven (x / u)) * u - x = (of_int (roundEven (x / u)) - x / u) * u"
    using u by (simp add: left_diff_distrib)
  then have "\<bar>of_int (roundEven (x / u)) * u - x\<bar> = \<bar>of_int (roundEven (x / u)) - x / u\<bar> * u"
    using u by (simp add: abs_mult)
  also have "\<dots> \<le> 1 / 2 * u"
    using roundEven_error [of "x / u"] u by (intro mult_right_mono) simp_all
  also have "\<dots> = 2 powr of_int e / 2 ^ 53"
  proof -
    have "u = 2 powr of_int e * 2 powr (- 52)"
      unfolding u_def by (simp add: powr_add [symmetric])
    also have "(2::real) powr (- 52) = 1 / 2 ^ 52"
      by (simp add: powr_minus_divide)
    finally show ?thesis by simp
  qed
  also have "\<dots> \<le> \<bar>x\<bar> / 2 ^ 53"
    using binade(1) [of "\<bar>x\<bar>"] False by (simp add: e_def divide_right_mono)
  finally show ?thesis using r by simp
qed

lemma roundDouble_nonneg: "0 \<le> x \<Longrightarrow> 0 \<le> roundDouble x"
  by (auto simp: roundDouble_def Let_def intro!: mult_nonneg_nonneg roundEven_nonneg)

lemma powr_int_nonneg: "0 \<le> j \<Longrightarrow> (2::real) powr of_int j = of_int (2 ^ nat j)"
proof -
  assume "0 \<le> j"
  then have "(2::real) powr of_int j = 2 powr real (nat j)" by simp
  also have "\<dots> = 2 ^ nat j" by (simp add: powr_realpow)
  finally show ?thesis by simp
qed

lemma roundDouble_exact:
  assumes "\<bar>m\<bar> < 2 ^ 53"
  shows "roundDouble (of_int m * 2 powr of_int k) = of_int m * 2 powr of_int k"
proof (cases "m = 0")
  case True
  then show ?thesis by simp
next
  case False
  define x :: real where "x = of_int m * 2 powr of_int k"
  define e where "e = \<lfloor>log 2 \<bar>x\<bar>\<rfloor>"
  define j where "j = k - (e - 52)"
  have x0: "x \<noteq> 0" using False by (simp add: x_def)
  have ax: "\<bar>x\<bar> = of_int \<bar>m\<bar> * 2 powr of_int k" by (simp add: x_def abs_mult)
  have "real_of_int \<bar>m\<bar> < 2 ^ 53" using assms by (metis of_int_less_numeral_power_cancel_iff)
  then have "\<bar>x\<bar> < 2 ^ 53 * 2 powr of_int k"
    unfolding ax by (intro mult_strict_right_mono) simp_all
  also have "\<dots> = 2 powr of_int (53 + k)"
  proof -
    have "(2::real) ^ 53 = 2 powr of_int 53" by (simp add: powr_int_nonneg)
    then show ?thesis by (simp only: powr_add [symmetric] of_int_add)
  qed
  finally have up: "\<bar>x\<bar> < 2 powr of_int (53 + k)" .
  have "2 powr of_int e \<le> \<bar>x\<bar>" unfolding e_def using x0 by (intro binade(1)) simp
  then have "2 powr of_int e < (2::real) powr of_int (53 + k)" using up by (rule le_less_trans)
  then have "e < 53 + k" by simp
  then have j: "0 \<le> j" by (simp add: j_def)
  have "x / 2 powr of_int (e - 52) = of_int m * (2 powr of_int k / 2 powr of_int (e - 52))"
    by (simp add: x_def)
  also have "2 powr of_int k / 2 powr of_int (e - 52) = (2::real) powr of_int j"
    by (simp add: j_def powr_diff)
  also have "\<dots> = of_int (2 ^ nat j)" using j by (rule powr_int_nonneg)
  finally have "x / 2 powr of_int (e - 52) = of_int (m * 2 ^ nat j)" by simp
  then have "roundEven (x / 2 powr of_int (e - 52)) = m * 2 ^ nat j"
    by (simp only: roundEven_of_int)
  then have "roundDouble x = of_int (m * 2 ^ nat j) * 2 powr of_int (e - 52)"
    using x0 by (simp add: roundDouble_def Let_def e_def)
  also have "\<dots> = of_int m * ((2::real) powr of_int j * 2 powr of_int (e - 52))"
    using powr_int_nonneg [OF j] by simp
  also have "(2::real) powr of_int j * 2 powr of_int (e - 52) = 2 powr of_int k"
    by (simp add: j_def powr_add [symmetric])
  finally show ?thesis by (simp add: x_def)
qed

lemma roundDouble_of_int: "\<bar>m\<bar> < 2 ^ 53 \<Longrightarrow> roundDouble (of_int m) = of_int m"
  using roundDouble_exact [of m 0] by simp

lemma roundDouble_dyadic:
  "\<bar>m\<bar> < 2 ^ 53 \<Longrightarrow> roundDouble (of_int m / 2 ^ n) = of_int m / 2 ^ n"
proof -
  assume m: "\<bar>m\<bar> < 2 ^ 53"
  have "(2::real) powr of_int (- int n) = 1 / 2 ^ n"
    by (simp add: powr_minus_divide powr_realpow)
  then show ?thesis using roundDouble_exact [OF m, of "- int n"] by simp
qed

lemma isDouble_below_1:
  assumes "isDouble r" and "0 \<le> r" and "r < 1"
  shows "r \<le> 1 - 1 / 2 ^ 53"
proof (cases "r = 0")
  case True
  then show ?thesis by simp
next
  case False
  then have r: "0 < r" using assms(2) by simp
  define e where "e = \<lfloor>log 2 r\<rfloor>"
  have lo: "2 powr of_int e \<le> r" and hi: "r < 2 powr of_int (e + 1)"
    using binade [OF r] by (simp_all add: e_def)
  have "2 powr of_int e < (1::real)" using lo assms(3) by simp
  then have "2 powr of_int e < (2::real) powr 0" by simp
  then have "real_of_int e < 0" by (simp only: powr_less_cancel_iff)
  then have e: "e < 0" by simp
  show ?thesis
  proof (cases "e = - 1")
    case True
    define M where "M = roundEven (r / 2 powr of_int (e - 52))"
    have u: "(2::real) powr of_int (e - 52) = 1 / 2 ^ 53"
      using True by (simp add: powr_minus_divide)
    have "roundDouble r = of_int M * 2 powr of_int (e - 52)"
      using r unfolding roundDouble_def Let_def M_def e_def by simp
    then have "r = of_int M / 2 ^ 53"
      using assms(1) unfolding isDouble_def u by simp
    moreover from this have "real_of_int M < 2 ^ 53" using assms(3) by simp
    then have "M < 2 ^ 53" by (metis of_int_less_numeral_power_cancel_iff)
    then have m: "M \<le> 2 ^ 53 - 1" by simp
    have "real_of_int M \<le> real_of_int (2 ^ 53 - 1)" using m by (simp only: of_int_le_iff)
    then have "real_of_int M \<le> 2 ^ 53 - 1" by simp
    ultimately show ?thesis by (simp add: field_simps)
  next
    case False
    then have "e + 1 \<le> - 1" using e by simp
    then have "real_of_int (e + 1) \<le> real_of_int (- 1)" by (simp only: of_int_le_iff)
    then have "(2::real) powr of_int (e + 1) \<le> 2 powr of_int (- 1)"
      by (simp only: powr_le_cancel_iff)
    then have "r < 1 / 2" using hi by (simp add: powr_minus_divide)
    then show ?thesis by simp
  qed
qed

lemma unit_index:
  assumes "isDouble r" and "0 \<le> r" and "r < 1" and "0 < n"
  shows "0 \<le> \<lfloor>roundDouble (r * real n)\<rfloor> \<and> \<lfloor>roundDouble (r * real n)\<rfloor> < int n"
proof
  have x: "0 \<le> r * real n" using assms by simp
  then have "0 \<le> roundDouble (r * real n)" by (rule roundDouble_nonneg)
  then show "0 \<le> \<lfloor>roundDouble (r * real n)\<rfloor>" by simp
  have b: "r \<le> 1 - 1 / 2 ^ 53" using assms(1-3) by (rule isDouble_below_1)
  have "roundDouble (r * real n) \<le> r * real n + \<bar>r * real n\<bar> / 2 ^ 53"
    using roundDouble_error [of "r * real n"] by linarith
  also have "\<dots> = r * (1 + 1 / 2 ^ 53) * real n" using x by (simp add: algebra_simps)
  also have "\<dots> \<le> (1 - 1 / 2 ^ 53) * (1 + 1 / 2 ^ 53) * real n"
    using b by (intro mult_right_mono) simp_all
  also have "\<dots> < 1 * real n"
    using assms(4) by (intro mult_strict_right_mono) simp_all
  finally have "roundDouble (r * real n) < of_int (int n)" by simp
  then show "\<lfloor>roundDouble (r * real n)\<rfloor> < int n" by (simp only: floor_less_iff)
qed

lemma percentage_error:
  fixes c t :: nat
  assumes "0 < t" and "c \<le> t"
  shows "\<bar>roundDouble (roundDouble (real c / real t) * 100) - 100 * real c / real t\<bar>
           \<le> 300 / 2 ^ 53"
proof -
  define x where "x = real c / real t"
  define q where "q = roundDouble x"
  define p where "p = roundDouble (q * 100)"
  have x: "0 \<le> x" "x \<le> 1" using assms by (simp_all add: x_def)
  have q: "\<bar>q - x\<bar> \<le> 1 / 2 ^ 53"
  proof -
    have "\<bar>q - x\<bar> \<le> \<bar>x\<bar> / 2 ^ 53" unfolding q_def by (rule roundDouble_error)
    also have "\<dots> \<le> 1 / 2 ^ 53" using x by (intro divide_right_mono) simp_all
    finally show ?thesis .
  qed
  have q0: "0 \<le> q" unfolding q_def using x(1) by (rule roundDouble_nonneg)
  have "q - x \<le> 1 / 2 ^ 53" using q by (rule abs_le_D1)
  then have q2: "q \<le> 2" using x by simp
  have "\<bar>p - q * 100\<bar> \<le> \<bar>q * 100\<bar> / 2 ^ 53" unfolding p_def by (rule roundDouble_error)
  also have "\<dots> \<le> 200 / 2 ^ 53" using q0 q2 by (intro divide_right_mono) simp_all
  finally have p: "\<bar>p - q * 100\<bar> \<le> 200 / 2 ^ 53" .
  have "\<bar>p - 100 * x\<bar> \<le> \<bar>p - q * 100\<bar> + 100 * \<bar>q - x\<bar>" by (simp add: abs_le_iff) argo
  also have "\<dots> \<le> 200 / 2 ^ 53 + 100 * (1 / 2 ^ 53)" using p q by (intro add_mono mult_left_mono) simp_all
  finally show ?thesis by (simp add: p_def q_def x_def)
qed

lemma near_half_integer:
  fixes z :: int and t :: nat
  assumes "0 < t" and "t < 2 ^ 32" and "real_of_int z / real t \<le> 1 / 2 + 300 / 2 ^ 53"
  shows "real_of_int z / real t \<le> 1 / 2"
proof (rule ccontr)
  assume "\<not> real_of_int z / real t \<le> 1 / 2"
  then have "1 / 2 < real_of_int z / real t" by simp
  then have "real t < 2 * real_of_int z"
    using assms(1) by (simp add: field_simps)
  then have "real_of_int (int t) < real_of_int (2 * z)" by simp
  then have "int t < 2 * z" by (simp only: of_int_less_iff)
  then have "int t + 1 \<le> 2 * z" by simp
  then have "real_of_int (int t + 1) \<le> real_of_int (2 * z)"
    by (simp only: of_int_le_iff)
  then have "real t + 1 \<le> 2 * real_of_int z" by simp
  then have "(real t + 1) / (2 * real t) \<le> (2 * real_of_int z) / (2 * real t)"
    by (intro divide_right_mono) simp_all
  moreover have "(real t + 1) / (2 * real t) = 1 / 2 + 1 / (2 * real t)"
    using assms(1) by (simp add: add_divide_distrib)
  ultimately have "1 / 2 + 1 / (2 * real t) \<le> real_of_int z / real t"
    by simp
  then have "1 / (2 * real t) \<le> 300 / 2 ^ 53" using assms(3) by linarith
  then have "2 ^ 53 \<le> 600 * real t" using assms(1) by (simp add: field_simps)
  moreover have "real t < 2 ^ 32" using assms(2) by (metis of_nat_less_numeral_power_cancel_iff)
  ultimately show False by simp
qed

lemma rounded_percentage:
  fixes c t :: nat
  assumes "0 < t" and "c \<le> t" and "t < 2 ^ 32"
  shows "\<bar>real_of_int (mathRound (roundDouble (roundDouble (real c / real t) * 100)))
            - 100 * real c / real t\<bar> \<le> 1 / 2"
proof -
  define p where "p = roundDouble (roundDouble (real c / real t) * 100)"
  define k where "k = mathRound p"
  define E where "E = 100 * real c / real t"
  have "\<bar>p - E\<bar> \<le> 300 / 2 ^ 53"
    unfolding p_def E_def using assms(1,2) by (rule percentage_error)
  then have pe: "p - E \<le> 300 / 2 ^ 53" "E - p \<le> 300 / 2 ^ 53"
    using abs_le_D1 [of "p - E"] abs_le_D2 [of "p - E"] by fastforce+
  have k1: "real_of_int k \<le> p + 1 / 2" and k2: "p + 1 / 2 < real_of_int k + 1"
    unfolding k_def mathRound_def by linarith+
  have d1: "real_of_int k - E = real_of_int (k * int t - 100 * int c) / real t"
    using assms(1) by (simp add: E_def field_simps)
  have d2: "E - real_of_int k = real_of_int (100 * int c - k * int t) / real t"
    using assms(1) by (simp add: E_def field_simps)
  have "real_of_int k - E \<le> 1 / 2 + 300 / 2 ^ 53" using pe(1) k1 by linarith
  then have up: "real_of_int k - E \<le> 1 / 2"
    unfolding d1 using assms(1,3) by (intro near_half_integer) simp_all
  have "E - real_of_int k \<le> 1 / 2 + 300 / 2 ^ 53" using pe(2) k2 by linarith
  then have lo: "E - real_of_int k \<le> 1 / 2"
    unfolding d2 using assms(1,3) by (intro near_half_integer) simp_all
  have "\<bar>real_of_int k - E\<bar> \<le> 1 / 2" using up lo by (intro abs_leI) simp_all
  then show ?thesis by (simp only: k_def p_def E_def)
qed

lemma roundEven_eval:
  "real_of_int f \<le> y \<Longrightarrow> y < real_of_int f + 1 / 2 \<Longrightarrow> roundEven y = f"
  "real_of_int f - 1 / 2 < y \<Longrightarrow> y \<le> real_of_int f \<Longrightarrow> roundEven y = f"
proof -
  assume "real_of_int f \<le> y" "y < real_of_int f + 1 / 2"
  moreover from this have "\<lfloor>y\<rfloor> = f" by linarith
  ultimately show "roundEven y = f" by (simp add: roundEven_def Let_def)
next
  assume a: "real_of_int f - 1 / 2 < y" "y \<le> real_of_int f"
  show "roundEven y = f"
  proof (cases "y = real_of_int f")
    case True
    then show ?thesis by simp
  next
    case False
    then have "\<lfloor>y\<rfloor> = f - 1" using a by linarith
    then show ?thesis using a False by (simp add: roundEven_def Let_def)
  qed
qed

lemma floor_log2_eq:
  assumes "2 powr of_int e \<le> a" and "a < 2 powr of_int (e + 1)"
  shows "\<lfloor>log 2 a\<rfloor> = e"
proof -
  have a: "0 < a" using assms(1) by (rule less_le_trans [rotated]) simp
  have "of_int e \<le> log 2 a" using assms(1) a by (simp add: le_log_iff)
  moreover have "log 2 a < of_int (e + 1)" using assms(2) a by (simp add: log_less_iff)
  ultimately show ?thesis by linarith
qed

lemma twenty_three_of_forty:
  "mathRound (roundDouble (roundDouble (23 / 40) * 100)) = 57"
proof -
  have e1: "\<lfloor>log 2 \<bar>23 / 40 :: real\<bar>\<rfloor> = - 1"
    by (rule floor_log2_eq) (simp_all add: powr_minus_divide)
  have u1: "(2::real) powr of_int (- 1 - 52) = 1 / 2 ^ 53" by (simp add: powr_minus_divide)
  have r1: "roundEven (23 / 40 / (1 / 2 ^ 53)) = 5179139571476070"
    by (rule roundEven_eval(1)) simp_all
  have q: "roundDouble (23 / 40) = 5179139571476070 / 2 ^ 53"
    unfolding roundDouble_def Let_def e1 u1 r1 by simp
  have e2: "\<lfloor>log 2 \<bar>5179139571476070 / 2 ^ 53 * 100 :: real\<bar>\<rfloor> = 5"
    by (rule floor_log2_eq) (simp_all add: powr_realpow [symmetric] )
  have u2: "(2::real) powr of_int (5 - 52) = 1 / 2 ^ 47" by (simp add: powr_minus_divide)
  have r2: "roundEven (5179139571476070 / 2 ^ 53 * 100 / (1 / 2 ^ 47)) = 8092405580431359"
    by (rule roundEven_eval(1)) simp_all
  have p: "roundDouble (5179139571476070 / 2 ^ 53 * 100) = 8092405580431359 / 2 ^ 47"
    unfolding roundDouble_def Let_def e2 u2 r2 by simp
  show ?thesis unfolding q p by (simp add: mathRound_def)
qed

section \<open>Sessions\<close>

lemma recordAnswer_fields:
  "answers (recordAnswer s ua now) = answers s @ [ua]"
  "questions (recordAnswer s ua now) = questions s"
  "current_index (recordAnswer s ua now) = current_index s + 1"
  "score (recordAnswer s ua now) = (if is_correct ua then score s + 1 else score s)"
  "completed (recordAnswer s ua now) =
     (if length (questions s) \<le> current_index s + 1 then True else completed s)"
  "end_time (recordAnswer s ua now) =
     (if length (questions s) \<le> current_index s + 1 then Some now else end_time s)"
  by (simp_all add: recordAnswer_def Let_def)

lemma reachable_invariant:
  "reachable s \<Longrightarrow>
     current_index s = length (answers s) \<and>
     score s = length (filter is_correct (answers s)) \<and>
     (completed s \<longrightarrow> length (questions s) \<le> current_index s) \<and>
     (end_time s \<noteq> None \<longrightarrow> length (questions s) \<le> current_index s)"
proof (induction rule: reachable.induct)
  case (reach_create d qs now)
  show ?case by (simp add: create_def)
next
  case (reach_record s ua now)
  then show ?case by (auto simp: recordAnswer_fields)
qed

lemma in_play_invariant:
  "in_play s \<Longrightarrow>
     current_index s = length (answers s) \<and> current_index s \<le> length (questions s) \<and>
     (completed s \<longrightarrow> current_index s = length (questions s) \<and> 0 < length (questions s))"
proof (induction rule: in_play.induct)
  case (play_create d qs now)
  show ?case by (simp add: create_def)
next
  case (play_record s ua now)
  then show ?case by (auto simp: recordAnswer_fields)
qed

text \<open>
  Claim C8. In a session reached from \<open>create\<close>, as long as the cursor is below the
  number of questions the session is not completed and has no end time; recording one
  more answer sets \<open>completed\<close> exactly when the cursor (the number of recorded
  answers) reaches the number of questions, and stamps the end time with the clock
  reading of that call exactly then.
\<close>

theorem completion_exactly_at_last_answer:
  assumes "reachable s" and "current_index s < length (questions s)"
  shows "\<not> completed s \<and> end_time s = None \<and>
         (completed (recordAnswer s ua now) \<longleftrightarrow>
            current_index (recordAnswer s ua now) = length (questions (recordAnswer s ua now))) \<and>
         end_time (recordAnswer s ua now) =
           (if current_index (recordAnswer s ua now) = length (questions (recordAnswer s ua now))
            then Some now else None) \<and>
         current_index (recordAnswer s ua now) = length (answers (recordAnswer s ua now))"
proof -
  have inv: "current_index s = length (answers s)"
    "completed s \<longrightarrow> length (questions s) \<le> current_index s"
    "end_time s \<noteq> None \<longrightarrow> length (questions s) \<le> current_index s"
    using reachable_invariant [OF assms(1)] by auto
  have before: "\<not> completed s" "end_time s = None" using inv assms(2) by auto
  show ?thesis using before inv(1) assms(2) by (auto simp: recordAnswer_fields)
qed

theorem completion_exactly_at_last_answer_witness:
  "reachable (recordAnswer exampleSession (exampleAnswer True) ''t1'') \<and>
   current_index (recordAnswer exampleSession (exampleAnswer True) ''t1'')
     < length (questions (recordAnswer exampleSession (exampleAnswer True) ''t1'')) \<and>
   \<not> completed (recordAnswer exampleSession (exampleAnswer True) ''t1'') \<and>
   completed (recordAnswer (recordAnswer exampleSession (exampleAnswer True) ''t1'')
                (exampleAnswer False) ''t2'') \<and>
   end_time (recordAnswer (recordAnswer exampleSession (exampleAnswer True) ''t1'')
                (exampleAnswer False) ''t2'') = Some ''t2''"
proof -
  have r: "reachable (recordAnswer exampleSession (exampleAnswer True) ''t1'')"
    unfolding exampleSession_def by (intro reachable.intros)
  have c: "current_index (recordAnswer exampleSession (exampleAnswer True) ''t1'')
             < length (questions (recordAnswer exampleSession (exampleAnswer True) ''t1''))"
    by (simp add: recordAnswer_fields exampleSession_def create_def)
  show ?thesis
    using r c completion_exactly_at_last_answer [OF r c, of "exampleAnswer False" "''t2''"]
    by (simp add: recordAnswer_fields exampleSession_def create_def)
qed

text \<open>
  Claim C10. In every state reachable from \<open>create\<close> by any sequence of
  \<open>recordAnswer\<close> calls, the running score is the number of recorded answers flagged
  correct, which is the correct count that \<open>toResults\<close> recomputes; and
  \<open>recordAnswer\<close> appends exactly one record to the answers, changing none.
\<close>

theorem score_counts_correct_answers:
  assumes "reachable s"
  shows "score s = length (filter is_correct (answers s)) \<and>
         correct_answers_r (toResults s) = score s \<and>
         answers (recordAnswer s ua now) = answers s @ [ua]"
  using reachable_invariant [OF assms] by (simp add: toResults_def Let_def recordAnswer_fields)

theorem score_counts_correct_answers_witness:
  "reachable (recordAnswer exampleSession (exampleAnswer True) ''t1'') \<and>
   score (recordAnswer exampleSession (exampleAnswer True) ''t1'') = 1 \<and>
   correct_answers_r (toResults (recordAnswer exampleSession (exampleAnswer True) ''t1'')) = 1"
proof -
  have r: "reachable (recordAnswer exampleSession (exampleAnswer True) ''t1'')"
    unfolding exampleSession_def by (intro reachable.intros)
  show ?thesis
    using r score_counts_correct_answers [OF r, of "exampleAnswer False" "''t2''"]
    by (simp add: recordAnswer_fields exampleSession_def create_def exampleAnswer_def)
qed

text \<open>
  Claim C9. For a session in play with at least one question (a completed session has
  one), the percentage of \<open>toResults\<close> is an integer nearest to the exact percentage
  of correct answers among the questions: it is off by at most one half. In particular
  it is 100 for a completed session whose recorded answers are all correct, and 0 when
  all recorded answers are incorrect. (The number of questions is below \<open>2 ^ 32\<close>, as
  the length of an array is.)
\<close>

theorem percentage_is_rounded_share:
  assumes "in_play s" and "0 < length (questions s)" and "length (questions s) < 2 ^ 32"
  shows "\<exists>k. score_r (toResults s) = Percent k \<and>
           \<bar>real_of_int k - 100 * real (length (filter is_correct (answers s)))
                                / real (length (questions s))\<bar> \<le> 1 / 2 \<and>
           (completed s \<and> (\<forall>a \<in> set (answers s). is_correct a) \<longrightarrow> k = 100) \<and>
           ((\<forall>a \<in> set (answers s). \<not> is_correct a) \<longrightarrow> k = 0)"
proof -
  define c where "c = length (filter is_correct (answers s))"
  define t where "t = length (questions s)"
  define k where "k = mathRound (roundDouble (roundDouble (real c / real t) * 100))"
  have inv: "length (answers s) \<le> t" "completed s \<longrightarrow> length (answers s) = t"
    using in_play_invariant [OF assms(1)] by (auto simp: t_def)
  have "c \<le> length (answers s)" unfolding c_def by (rule length_filter_le)
  then have ct: "c \<le> t" using inv(1) by simp
  have t: "0 < t" "t < 2 ^ 32" using assms(2,3) by (simp_all add: t_def)
  have sc: "score_r (toResults s) = Percent k"
    using t(1) by (simp add: toResults_def Let_def k_def c_def t_def)
  have near: "\<bar>real_of_int k - 100 * real c / real t\<bar> \<le> 1 / 2"
    unfolding k_def using t(1) ct t(2) by (rule rounded_percentage)
  have full: "k = 100" if "completed s" "\<forall>a \<in> set (answers s). is_correct a"
  proof -
    have "filter is_correct (answers s) = answers s" using that(2) by simp
    then have "c = t" using inv(2) that(1) by (simp add: c_def)
    then have "\<bar>real_of_int k - 100\<bar> \<le> 1 / 2" using near t(1) by simp
    then show ?thesis by linarith
  qed
  have none: "k = 0" if "\<forall>a \<in> set (answers s). \<not> is_correct a"
  proof -
    have "filter is_correct (answers s) = []" using that by simp
    then have "c = 0" by (simp add: c_def)
    then have "\<bar>real_of_int k\<bar> \<le> 1 / 2" using near by simp
    then show ?thesis by linarith
  qed
  show ?thesis using sc near full none unfolding c_def t_def by blast
qed

lemma playedSession_in_play: "in_play (playedSession c)"
  unfolding playedSession_def exampleSession_def
  by (intro in_play.intros) (simp_all add: recordAnswer_fields create_def)

lemma mixedSession_in_play: "in_play mixedSession"
  unfolding mixedSession_def exampleSession_def
  by (intro in_play.intros) (simp_all add: recordAnswer_fields create_def)

theorem percentage_is_rounded_share_witness:
  "in_play (playedSession True) \<and> completed (playedSession True) \<and>
   score_r (toResults (playedSession True)) = Percent 100 \<and>
   in_play (playedSession False) \<and> score_r (toResults (playedSession False)) = Percent 0 \<and>
   in_play mixedSession \<and> score_r (toResults mixedSession) = Percent 50"
proof -
  have c: "completed (playedSession b)" for b
    by (simp add: playedSession_def recordAnswer_fields exampleSession_def create_def)
  have a: "answers (playedSession b) = [exampleAnswer b, exampleAnswer b]" for b
    by (simp add: playedSession_def recordAnswer_fields exampleSession_def create_def)
  have q: "length (questions (playedSession b)) = 2" for b
    by (simp add: playedSession_def recordAnswer_fields exampleSession_def create_def)
  have am: "answers mixedSession = [exampleAnswer True, exampleAnswer False]"
    by (simp add: mixedSession_def recordAnswer_fields exampleSession_def create_def)
  have qm: "length (questions mixedSession) = 2"
    by (simp add: mixedSession_def recordAnswer_fields exampleSession_def create_def)
  have 1: "score_r (toResults (playedSession True)) = Percent 100"
    using percentage_is_rounded_share [of "playedSession True"] playedSession_in_play c
    by (auto simp: a q exampleAnswer_def)
  have 2: "score_r (toResults (playedSession False)) = Percent 0"
    using percentage_is_rounded_share [of "playedSession False"] playedSession_in_play
    by (auto simp: a q exampleAnswer_def)
  obtain k where k: "score_r (toResults mixedSession) = Percent k"
      "\<bar>real_of_int k - 100 * real (length (filter is_correct (answers mixedSession)))
                                / real (length (questions mixedSession))\<bar> \<le> 1 / 2"
    using percentage_is_rounded_share [of mixedSession] mixedSession_in_play
    by (auto simp: qm)
  have "\<bar>real_of_int k - 50\<bar> \<le> 1 / 2" using k(2) by (simp add: am qm exampleAnswer_def)
  then have "k = 50" by linarith
  then have 3: "score_r (toResults mixedSession) = Percent 50" using k(1) by simp
  show ?thesis using 1 2 3 playedSession_in_play mixedSession_in_play c by blast
qed

text \<open>
  The two roundings to a double show where the exact percentage lies halfway between
  two integers: with 23 correct answers to 40 questions it is 57.5, the quotient is
  rounded to a double just below 0.575, the product to a double just below 57.5, and
  the score is 57.
\<close>

lemma score_23_of_40:
  "mathRound (roundDouble (roundDouble (real 23 / real 40) * 100)) = 57"
  using twenty_three_of_forty by simp

section \<open>Generator: the seniority template\<close>

lemma unitDraws_shd: "unitDraws rs \<Longrightarrow> isDouble (shd rs) \<and> 0 \<le> shd rs \<and> shd rs < 1"
  by (simp add: unitDraws_def shd_sset)

lemma unitDraws_stl: "unitDraws rs \<Longrightarrow> unitDraws (stl rs)"
  by (auto simp: unitDraws_def dest: stl_sset)

lemma unitDraws_sconst: "isDouble r \<Longrightarrow> 0 \<le> r \<Longrightarrow> r < 1 \<Longrightarrow> unitDraws (sconst r)"
  by (simp add: unitDraws_def)

lemma isDouble_examples:
  "isDouble 0" "isDouble (1 / 2)" "isDouble (3 / 4)" "isDouble (7 / 8)"
  using roundDouble_dyadic [of 1 1] roundDouble_dyadic [of 3 2] roundDouble_dyadic [of 7 3]
  by (simp_all add: isDouble_def)

lemma roundDouble_examples [simp]:
  "roundDouble 1 = 1" "roundDouble (1 / 2) = 1 / 2" "roundDouble (7 / 8) = 7 / 8"
  "roundDouble (7 / 4) = 7 / 4" "roundDouble (21 / 8) = 21 / 8" "roundDouble (7 / 2) = 7 / 2"
  "roundDouble (35 / 8) = 35 / 8"
  using roundDouble_of_int [of 1] roundDouble_dyadic [of 1 1] roundDouble_dyadic [of 7 3]
    roundDouble_dyadic [of 7 2] roundDouble_dyadic [of 21 3] roundDouble_dyadic [of 7 1]
    roundDouble_dyadic [of 35 3]
  by simp_all

lemma pickRandom_Nil: "pickRandom [] st = (None, st)"
  by (simp add: pickRandom_def)

lemma pickRandom_unit:
  assumes "unitDraws (rnd st)" and "arr \<noteq> []"
  shows "\<exists>x \<in> set arr. pickRandom arr st = (Some x, st\<lparr>rnd := stl (rnd st)\<rparr>)"
proof -
  let ?i = "\<lfloor>roundDouble (shd (rnd st) * real (length arr))\<rfloor>"
  have i: "0 \<le> ?i \<and> ?i < int (length arr)"
    using unitDraws_shd [OF assms(1)] assms(2) by (intro unit_index) simp_all
  then have "nat ?i < length arr" by linarith
  then have "arr ! nat ?i \<in> set arr" by simp
  moreover have "pickRandom arr st = (Some (arr ! nat ?i), st\<lparr>rnd := stl (rnd st)\<rparr>)"
    using i assms(2) by (simp add: pickRandom_def nextRnd_def Let_def)
  ultimately show ?thesis by blast
qed

lemma set_foldl_unique:
  "set (foldl (\<lambda>seen x. if x \<in> set seen then seen else seen @ [x]) acc xs) = set acc \<union> set xs"
  by (induction xs arbitrary: acc) auto

lemma set_uniqueStates: "set (uniqueStates senators) = state ` set senators"
  by (simp add: uniqueStates_def set_foldl_unique)

lemma uniqueStates_Nil: "uniqueStates [] = []"
  by (simp add: uniqueStates_def)

lemma uniqueStates_not_Nil: "senators \<noteq> [] \<Longrightarrow> uniqueStates senators \<noteq> []"
  using set_uniqueStates [of senators] by (cases senators) auto

lemma matches_state_seniority:
  "k \<noteq> [] \<Longrightarrow> x \<noteq> [] \<Longrightarrow>
   getByStatePartySeniority senators (Some k) None (Some x) =
     filter (\<lambda>s. state s = k \<and> seniority s = x) senators"
  by (auto simp: getByStatePartySeniority_def truthy_def intro!: filter_cong)

lemma matches_Nil: "getByStatePartySeniority [] st0 pa se = []"
  by (simp add: getByStatePartySeniority_def)

lemma stateSeniorityLoop_result:
  assumes "namedStates senators"
  shows "unitDraws (rnd st) \<Longrightarrow>
    (case stateSeniorityLoop n d senators st of
       (Inr q, st') \<Rightarrow>
         (\<exists>k x s. filled_variables q = [(''state'', Some k), (''seniority'', Some x)] \<and>
            filter (\<lambda>s. state s = k \<and> seniority s = x) senators = [s] \<and>
            correct_answers q = [officialName s])
     | (Inl e, st') \<Rightarrow>
         error_type e = ''ambiguous_answer'' \<and>
         rnd st' = sdrop ((if senators = [] then 1 else 2) * n) (rnd st))"
proof (induction n arbitrary: st)
  case 0
  show ?case by (simp add: errorObject_def)
next
  case (Suc n)
  show ?case
  proof (cases "senators = []")
    case True
    let ?st1 = "st\<lparr>rnd := stl (rnd st)\<rparr>"
    obtain y where y: "pickRandom seniorities st = (Some y, ?st1)"
      using pickRandom_unit [OF Suc.prems, of seniorities] by (auto simp: seniorities_def)
    have u: "unitDraws (rnd ?st1)" using Suc.prems by (simp add: unitDraws_stl)
    have step: "stateSeniorityLoop (Suc n) d senators st = stateSeniorityLoop n d senators ?st1"
      using True y by (simp add: uniqueStates_Nil pickRandom_Nil matches_Nil)
    show ?thesis
      using Suc.IH [OF u] True unfolding step
      by (auto split: sum.splits prod.splits)
  next
    case False
    let ?st1 = "st\<lparr>rnd := stl (rnd st)\<rparr>"
    let ?st2 = "st\<lparr>rnd := stl (stl (rnd st))\<rparr>"
    obtain k where k: "k \<in> set (uniqueStates senators)"
      and pk: "pickRandom (uniqueStates senators) st = (Some k, ?st1)"
      using pickRandom_unit [OF Suc.prems uniqueStates_not_Nil [OF False]] by blast
    have u1: "unitDraws (rnd ?st1)" using Suc.prems by (simp add: unitDraws_stl)
    obtain y where y: "y \<in> set seniorities"
      and py: "pickRandom seniorities ?st1 = (Some y, ?st2)"
      using pickRandom_unit [OF u1, of seniorities] by (auto simp: seniorities_def)
    have u2: "unitDraws (rnd ?st2)" using Suc.prems by (simp add: unitDraws_stl)
    have kn: "k \<noteq> []" using k assms by (auto simp: set_uniqueStates namedStates_def)
    have yn: "y \<noteq> []" using y by (auto simp: seniorities_def)
    let ?ms = "filter (\<lambda>s. state s = k \<and> seniority s = y) senators"
    have ms: "getByStatePartySeniority senators (Some k) None (Some y) = ?ms"
      using kn yn by (rule matches_state_seniority)
    show ?thesis
    proof (cases "length ?ms = 1")
      case True
      then obtain s where s: "?ms = [s]" by (cases ?ms) auto
      show ?thesis
        using True s by (simp add: pk py ms makeId_def nextMathRandom_def split: prod.splits)
    next
      case F: False
      have step: "stateSeniorityLoop (Suc n) d senators st = stateSeniorityLoop n d senators ?st2"
        using F by (simp add: pk py ms)
      show ?thesis
        using Suc.IH [OF u2] False unfolding step
        by (auto split: sum.splits prod.splits)
    qed
  qed
qed

text \<open>
  Claim C3. On a roster whose states are named (as \<^verbatim>\<open>loadSenators\<close> delivers it) and with
  a source \<open>rnd\<close> of doubles in the unit interval, every question that \<open>stateSeniority\<close>
  returns is filled with a state and a seniority that exactly one senator of the roster
  has, and its correct answers are that senator's official name alone. Otherwise the
  filler returns the typed failure \<^verbatim>\<open>ambiguous_answer\<close>, after its 40 attempts have used
  their draws (two each, one each on the empty roster, where no state is drawn).
\<close>

theorem stateSeniority_unique_match:
  assumes "namedStates senators" and "unitDraws (rnd st)"
  shows "case stateSeniority d senators st of
       (Inr q, st') \<Rightarrow>
         (\<exists>k x s. filled_variables q = [(''state'', Some k), (''seniority'', Some x)] \<and>
            filter (\<lambda>s. state s = k \<and> seniority s = x) senators = [s] \<and>
            correct_answers q = [officialName s])
     | (Inl e, st') \<Rightarrow>
         error_type e = ''ambiguous_answer'' \<and>
         rnd st' = sdrop (if senators = [] then 40 else 80) (rnd st)"
  using stateSeniorityLoop_result [OF assms, of 40 d]
  by (auto simp: stateSeniority_def split: sum.splits prod.splits)

lemma stateSeniority_example:
  "stateSeniority Easy exampleRoster halfDraws =
     (Inr \<lparr>id_q = 0, template = ''Name the {seniority} Senator from {state}.'',
           filled_variables = [(''state'', Some ''Ohio''), (''seniority'', Some ''Junior'')],
           difficulty = Easy, correct_answers = [''John Smith''],
           allowed_answer_modes = [''last_name'', ''full_name''], type = ''text'',
           portrait_image = None\<rparr>, halfDraws)"
  using stateSeniorityLoop.simps(2) [of 39 Easy exampleRoster halfDraws]
  by (simp add: stateSeniority_def exampleRoster_def halfDraws_def uniqueStates_def
        pickRandom_def nextRnd_def seniorities_def getByStatePartySeniority_def truthy_def
        makeId_def nextMathRandom_def officialName_def)

theorem stateSeniority_unique_match_witness:
  "namedStates exampleRoster \<and> unitDraws (rnd halfDraws) \<and>
   (\<exists>q st'. stateSeniority Easy exampleRoster halfDraws = (Inr q, st') \<and>
      filter (\<lambda>s. state s = ''Ohio'' \<and> seniority s = ''Junior'') exampleRoster
        = [exampleRoster ! 0] \<and>
      correct_answers q = [officialName (exampleRoster ! 0)])"
proof -
  have n: "namedStates exampleRoster" by (simp add: namedStates_def exampleRoster_def)
  have u: "unitDraws (rnd halfDraws)"
    by (simp add: halfDraws_def unitDraws_sconst isDouble_examples)
  show ?thesis
    using n u stateSeniority_unique_match [OF n u, of Easy]
    by (simp add: stateSeniority_example) (simp add: exampleRoster_def)
qed


section \<open>Generator: first success or typed failure\<close>

lemma error_type_errorObject [simp]: "error_type (errorObject t m d) = t"
  by (simp add: errorObject_def)

lemma typedFailure_Inl [simp]: "typedFailure (Inl e, st) \<longleftrightarrow> error_type e \<noteq> []"
  by (simp add: typedFailure_def)

lemma typedFailure_Inr [simp]: "typedFailure (Inr q, st)"
  by (simp add: typedFailure_def)

lemma portraitOnly_typed: "typedFailure (portraitOnly d senators st)"
  by (simp add: portraitOnly_def Let_def split: prod.splits option.splits)

lemma statePartyAnyLoop_typed: "typedFailure (statePartyAnyLoop n senators st)"
  by (induction n arbitrary: st) (auto simp: Let_def split: prod.splits)

lemma stateSeniorityLoop_typed: "typedFailure (stateSeniorityLoop n d senators st)"
  by (induction n arbitrary: st) (auto simp: Let_def split: prod.splits)

lemma statePartySeniorityLoop_typed: "typedFailure (statePartySeniorityLoop n senators st)"
  by (induction n arbitrary: st) (auto simp: Let_def split: prod.splits)

lemma partyOfPortrait_typed: "typedFailure (partyOfPortrait senators st)"
  by (simp add: partyOfPortrait_def Let_def split: prod.splits option.splits)

lemma stateOfPortrait_typed: "typedFailure (stateOfPortrait senators st)"
  by (simp add: stateOfPortrait_def Let_def split: prod.splits option.splits)

lemma partyOfRandom_typed: "typedFailure (partyOfRandom d senators st)"
  by (simp add: partyOfRandom_def Let_def split: prod.splits option.splits)

lemma stateOfRandom_typed: "typedFailure (stateOfRandom d senators st)"
  by (simp add: stateOfRandom_def Let_def split: prod.splits option.splits)

lemma groupInto_plain: "plainStates senators \<Longrightarrow> \<exists>b. groupInto acc senators = Some b"
proof (induction senators arbitrary: acc)
  case Nil
  show ?case by simp
next
  case (Cons s rest)
  then have "plainStates rest" "state s \<notin> set objectPrototypeMembers"
    by (simp_all add: plainStates_def)
  then show ?case using Cons.IH by (simp split: option.splits)
qed

lemma groupInto_raises:
  "\<not> plainStates senators \<Longrightarrow> \<forall>k \<in> fst ` set acc. k \<notin> set objectPrototypeMembers \<Longrightarrow>
   groupInto acc senators = None"
proof (induction senators arbitrary: acc)
  case Nil
  then show ?case by (simp add: plainStates_def)
next
  case (Cons s rest)
  show ?case
  proof (cases "state s \<in> set objectPrototypeMembers")
    case True
    then have "state s \<notin> fst ` set acc" using Cons.prems(2) by blast
    then have "map_of acc (state s) = None" by (simp add: map_of_eq_None_iff)
    then show ?thesis using True by simp
  next
    case False
    then have rest: "\<not> plainStates rest" using Cons.prems(1) by (simp add: plainStates_def)
    show ?thesis
    proof (cases "map_of acc (state s)")
      case None
      have "\<forall>k \<in> fst ` set (acc @ [(state s, [s])]). k \<notin> set objectPrototypeMembers"
        using Cons.prems(2) False by auto
      then show ?thesis using Cons.IH [OF rest] None False by simp
    next
      case (Some ms)
      let ?acc = "map (\<lambda>(k, v). if k = state s then (k, v @ [s]) else (k, v)) acc"
      have "fst ` set ?acc = fst ` set acc" by force
      then have "\<forall>k \<in> fst ` set ?acc. k \<notin> set objectPrototypeMembers"
        using Cons.prems(2) by simp
      then show ?thesis using Cons.IH [OF rest] Some by simp
    qed
  qed
qed

text \<open>
  \<open>groupByState\<close> raises exactly on the rosters that have a state with the name of a
  member of \<^verbatim>\<open>Object.prototype\<close>, and then \<open>stateAny\<close> raises before any draw.
\<close>

lemma groupByState_raises_iff: "groupByState senators = None \<longleftrightarrow> \<not> plainStates senators"
  using groupInto_plain [of senators "[]"] groupInto_raises [of senators "[]"]
  by (auto simp: groupByState_def)

lemma stateAny_raises_iff: "fst (stateAny senators st) = TypeError \<longleftrightarrow> \<not> plainStates senators"
proof (cases "groupByState senators")
  case None
  then show ?thesis using groupByState_raises_iff [of senators] by (simp add: stateAny_def)
next
  case (Some b)
  then have "plainStates senators" using groupByState_raises_iff [of senators] by auto
  then show ?thesis using Some by (simp add: stateAny_def Let_def split: prod.splits)
qed

lemma stateAny_typed:
  "stateAny senators st = (Returned r, st') \<Longrightarrow> isError r \<longleftrightarrow> (\<exists>e. r = Inl e)"
  by (auto simp: stateAny_def Let_def isError_def split: option.splits prod.splits if_splits)

lemma returned_isError:
  "typedFailure x \<Longrightarrow> apfst Returned x = (Returned r, st') \<Longrightarrow> isError r \<longleftrightarrow> (\<exists>e. r = Inl e)"
  by (cases x, cases r) (auto simp: typedFailure_def isError_def)

text \<open>What holds of the result of \<open>stateAny\<close> and of every other filler holds of \<open>tryTemplate\<close>.\<close>

lemma tryTemplate_cases:
  assumes "P (stateAny senators st)" and "\<And>x. typedFailure x \<Longrightarrow> P (apfst Returned x)"
  shows "P (tryTemplate k d senators st)"
proof -
  have "P (Returned (Inl (errorObject ''unknown_template'' ''Unknown template key.''
                             (Some [(''key'', Some k)]))), st)"
    using assms(2) [of "(Inl (errorObject ''unknown_template'' ''Unknown template key.''
                             (Some [(''key'', Some k)])), st)"]
    by simp
  then show ?thesis
    unfolding tryTemplate_def statePartyAny_def stateSeniority_def statePartySeniority_def
    by (simp add: assms portraitOnly_typed statePartyAnyLoop_typed stateSeniorityLoop_typed
          statePartySeniorityLoop_typed partyOfPortrait_typed stateOfPortrait_typed
          partyOfRandom_typed stateOfRandom_typed)
qed

lemma tryTemplate_isError:
  "tryTemplate k d senators st = (Returned r, st') \<Longrightarrow> isError r \<longleftrightarrow> (\<exists>e. r = Inl e)"
  by (rule tryTemplate_cases [where P = "\<lambda>res. res = (Returned r, st') \<longrightarrow> (isError r \<longleftrightarrow> (\<exists>e. r = Inl e))",
        of senators st k d, rule_format])
     (auto simp: stateAny_typed returned_isError)

lemma tryTemplate_raises:
  assumes "tryTemplate k d senators st = (TypeError, st')"
  shows "\<not> plainStates senators"
proof -
  have "tryTemplate k d senators st = (TypeError, st') \<longrightarrow> \<not> plainStates senators"
  proof (rule tryTemplate_cases [where P = "\<lambda>res. res = (TypeError, st') \<longrightarrow> \<not> plainStates senators"])
    show "stateAny senators st = (TypeError, st') \<longrightarrow> \<not> plainStates senators"
      using stateAny_raises_iff [of senators st] by auto
  next
    fix x :: "(error + question) \<times> randomness"
    assume "typedFailure x"
    show "apfst Returned x = (TypeError, st') \<longrightarrow> \<not> plainStates senators"
      by (cases x) simp
  qed
  then show ?thesis using assms by simp
qed

lemma tryEach_Some:
  assumes "plainStates senators"
  shows "(\<exists>pre t post st1 q st2. order = pre @ t # post \<and> failAll pre d senators st = Some st1 \<and>
       tryTemplate (key t) d senators st1 = (Returned (Inr q), st2) \<and>
       tryEach (map Some order) d senators st = (Returned (Inr q), st2)) \<or>
   (\<exists>st1 e. failAll order d senators st = Some st1 \<and> error_type e = ''unsolvable_template'' \<and>
       tryEach (map Some order) d senators st = (Returned (Inl e), st1))"
proof (induction order arbitrary: st)
  case Nil
  show ?case by simp
next
  case (Cons t ts)
  obtain g st' where g: "tryTemplate (key t) d senators st = (g, st')"
    by (cases "tryTemplate (key t) d senators st")
  then obtain r where r: "tryTemplate (key t) d senators st = (Returned r, st')"
    using tryTemplate_raises [of "key t" d senators st st'] assms by (cases g) auto
  show ?case
  proof (cases r)
    case (Inr q)
    then have "\<not> isError r" using tryTemplate_isError [OF r] by simp
    then have "tryEach (map Some (t # ts)) d senators st = (Returned (Inr q), st')"
      using r Inr by simp
    moreover have "failAll [] d senators st = Some st" by simp
    ultimately show ?thesis using r Inr by (metis append_Nil)
  next
    case (Inl e)
    then have err: "isError r" using tryTemplate_isError [OF r] by simp
    have te: "tryEach (map Some (t # ts)) d senators st = tryEach (map Some ts) d senators st'"
      using r err by simp
    have fa: "failAll (t # pre) d senators st = failAll pre d senators st'" for pre
      using r err by simp
    from Cons.IH [of st'] show ?thesis
    proof
      assume "\<exists>pre u post st1 q st2. ts = pre @ u # post \<and> failAll pre d senators st' = Some st1 \<and>
        tryTemplate (key u) d senators st1 = (Returned (Inr q), st2) \<and>
        tryEach (map Some ts) d senators st' = (Returned (Inr q), st2)"
      then obtain pre u post st1 q st2 where
        "ts = pre @ u # post" "failAll pre d senators st' = Some st1"
        "tryTemplate (key u) d senators st1 = (Returned (Inr q), st2)"
        "tryEach (map Some ts) d senators st' = (Returned (Inr q), st2)"
        by blast
      then have "t # ts = (t # pre) @ u # post \<and> failAll (t # pre) d senators st = Some st1 \<and>
        tryTemplate (key u) d senators st1 = (Returned (Inr q), st2) \<and>
        tryEach (map Some (t # ts)) d senators st = (Returned (Inr q), st2)"
        using te fa by simp
      then show ?thesis by blast
    next
      assume "\<exists>st1 e. failAll ts d senators st' = Some st1 \<and> error_type e = ''unsolvable_template'' \<and>
        tryEach (map Some ts) d senators st' = (Returned (Inl e), st1)"
      then show ?thesis using te fa by simp
    qed
  qed
qed

lemma swap_in_range:
  assumes "i < length arr" and "0 \<le> j" and "nat j < length arr"
  shows "swap arr i j = arr[i := arr ! nat j, nat j := arr ! i]"
proof -
  have "j < int (length arr)" using assms by linarith
  then show ?thesis using assms by (simp add: swap_def Let_def)
qed

lemma shuffleFrom_mset:
  "unitDraws (rnd st) \<Longrightarrow> k < length arr \<Longrightarrow> mset (fst (shuffleFrom k arr st)) = mset arr"
proof (induction k arbitrary: arr st)
  case 0
  show ?case by simp
next
  case (Suc k)
  let ?j = "\<lfloor>roundDouble (shd (rnd st) * real (Suc k + 1))\<rfloor>"
  let ?st' = "st\<lparr>rnd := stl (rnd st)\<rparr>"
  have j: "0 \<le> ?j \<and> ?j < int (Suc k + 1)"
    using unitDraws_shd [OF Suc.prems(1)] by (intro unit_index) simp_all
  then have jn: "nat ?j < length arr" using Suc.prems(2) by linarith
  have sw: "swap arr (Suc k) ?j = arr[Suc k := arr ! nat ?j, nat ?j := arr ! Suc k]"
    using Suc.prems(2) j jn by (intro swap_in_range) simp_all
  have ms: "mset (swap arr (Suc k) ?j) = mset arr"
    unfolding sw using mset_swap [OF jn Suc.prems(2)] .
  have len: "k < length (swap arr (Suc k) ?j)" unfolding sw using Suc.prems(2) by simp
  have u: "unitDraws (rnd ?st')" using Suc.prems(1) by (simp add: unitDraws_stl)
  have "shuffleFrom (Suc k) arr st = shuffleFrom k (swap arr (Suc k) ?j) ?st'"
    by (simp add: nextRnd_def Let_def)
  then show ?case using Suc.IH [OF u len] ms by simp
qed

lemma shuffleInPlace_mset:
  "unitDraws (rnd st) \<Longrightarrow> mset (fst (shuffleInPlace arr st)) = mset arr"
proof (cases "arr = []")
  case True
  then show ?thesis by (simp add: shuffleInPlace_def)
next
  case False
  assume "unitDraws (rnd st)"
  then show ?thesis
    unfolding shuffleInPlace_def using False by (intro shuffleFrom_mset) simp_all
qed

lemma mset_map_Some:
  assumes "mset arr = mset (map Some ts)"
  shows "\<exists>order. arr = map Some order \<and> mset order = mset ts"
proof -
  have "set arr = Some ` set ts" using mset_eq_setD [OF assms] by simp
  then have "\<forall>x \<in> set arr. x \<noteq> None" by auto
  then have a: "arr = map Some (map the arr)" by (induction arr) auto
  have "image_mset the (mset arr) = image_mset the (mset (map Some ts))"
    using assms by simp
  then have "mset (map the arr) = mset (map the (map Some ts))"
    by (simp only: mset_map)
  then have "mset (map the arr) = mset ts" by (simp add: comp_def)
  with a show ?thesis by blast
qed

lemma generateQuestion_tryEach:
  "shuffleInPlace (map Some (Templates d)) st = (arr, st0) \<Longrightarrow>
   generateQuestion d senators st = tryEach arr d senators st0"
  by (simp add: generateQuestion_def Let_def)

text \<open>
  With a source \<open>rnd\<close> of doubles in the unit interval, as \<^verbatim>\<open>Math.random\<close> is, and a
  roster none of whose states has the name of a member of \<^verbatim>\<open>Object.prototype\<close>, the
  shuffle yields a permutation of the tier's templates, and \<open>generateQuestion\<close> returns
  either the question of the first template of that order that succeeds, all templates
  before it having failed, or, when all of them fail, a failure of type
  \<^verbatim>\<open>unsolvable_template\<close>.
\<close>

lemma generateQuestion_first_success_or_unsolvable:
  assumes "unitDraws (rnd st)" and "plainStates senators"
  shows "\<exists>order st0.
     shuffleInPlace (map Some (Templates d)) st = (map Some order, st0) \<and>
     mset order = mset (Templates d) \<and>
     ((\<exists>pre t post st1 q st2. order = pre @ t # post \<and>
          failAll pre d senators st0 = Some st1 \<and>
          tryTemplate (key t) d senators st1 = (Returned (Inr q), st2) \<and>
          generateQuestion d senators st = (Returned (Inr q), st2)) \<or>
      (\<exists>st1 e. failAll order d senators st0 = Some st1 \<and>
          error_type e = ''unsolvable_template'' \<and>
          generateQuestion d senators st = (Returned (Inl e), st1)))"
proof -
  obtain arr st0 where sh: "shuffleInPlace (map Some (Templates d)) st = (arr, st0)"
    by (cases "shuffleInPlace (map Some (Templates d)) st")
  have "mset arr = mset (map Some (Templates d))"
    using shuffleInPlace_mset [OF assms(1), of "map Some (Templates d)"] sh by simp
  then obtain order where o: "arr = map Some order" "mset order = mset (Templates d)"
    using mset_map_Some by blast
  have g: "generateQuestion d senators st = tryEach (map Some order) d senators st0"
    using generateQuestion_tryEach [OF sh] o(1) by simp
  show ?thesis
    using tryEach_Some [OF assms(2), of order d st0] sh o unfolding g by blast
qed

lemma sevenEighths_unitDraws: "unitDraws (rnd sevenEighths)"
  by (simp add: sevenEighths_def unitDraws_sconst isDouble_examples)

lemma prototypeRoster_loaded: "namedStates prototypeRoster \<and> \<not> plainStates prototypeRoster"
  by (simp add: namedStates_def plainStates_def prototypeRoster_def objectPrototypeMembers_def)

lemma shuffle_sevenEighths:
  "shuffleInPlace (map Some (Templates Easy)) sevenEighths = (map Some (Templates Easy), sevenEighths)"
  by (simp add: shuffleInPlace_def Templates_def sevenEighths_def nextRnd_def swap_def Let_def)

text \<open>
  Claim C5, at a roster that \<^verbatim>\<open>loadSenators\<close> lets through: one senator whose state is
  named \<^verbatim>\<open>constructor\<close>. With the draws all 7/8 the shuffle leaves the Easy templates in
  their order, \<open>stateAny\<close> is tried first, and \<open>groupByState\<close> raises the \<^verbatim>\<open>TypeError\<close>
  that \<open>generateQuestion\<close> passes on: no question and no typed failure is returned.
\<close>

theorem generateQuestion_raises_on_prototype_state:
  "fst (generateQuestion Easy prototypeRoster sevenEighths) = TypeError"
proof -
  have "groupByState prototypeRoster = None"
    using groupByState_raises_iff prototypeRoster_loaded by blast
  then have "stateAny prototypeRoster sevenEighths = (TypeError, sevenEighths)"
    by (simp add: stateAny_def)
  then show ?thesis
    using generateQuestion_tryEach [OF shuffle_sevenEighths, of prototypeRoster]
    by (simp add: Templates_def tryTemplate_def)
qed


section \<open>Generator: what the supplied source determines\<close>

lemma pickRandom_same:
  assumes "rnd st1 = rnd st2"
  shows "\<exists>x rs. pickRandom arr st1 = (x, st1\<lparr>rnd := rs\<rparr>) \<and> pickRandom arr st2 = (x, st2\<lparr>rnd := rs\<rparr>)"
proof (cases "arr = []")
  case True
  then have "pickRandom arr st1 = (None, st1\<lparr>rnd := rnd st1\<rparr>)"
    "pickRandom arr st2 = (None, st2\<lparr>rnd := rnd st1\<rparr>)"
    using assms by (simp_all add: pickRandom_def)
  then show ?thesis by blast
next
  case False
  then have "pickRandom arr st1 =
      (fst (pickRandom arr st1), st1\<lparr>rnd := stl (rnd st1)\<rparr>)"
    "pickRandom arr st2 = (fst (pickRandom arr st1), st2\<lparr>rnd := stl (rnd st1)\<rparr>)"
    using assms by (simp_all add: pickRandom_def nextRnd_def Let_def)
  then show ?thesis by blast
qed

lemmas alike_defs = alike_def alikeGenerated_def sameButId_def sameAnswerKey_def coinTyped_def

lemma portraitOnly_alike:
  assumes "rnd st1 = rnd st2"
  shows "alike (apfst Returned (portraitOnly d senators st1))
           (apfst Returned (portraitOnly d senators st2))"
proof -
  obtain x rs where p: "pickRandom senators st1 = (x, st1\<lparr>rnd := rs\<rparr>)"
    "pickRandom senators st2 = (x, st2\<lparr>rnd := rs\<rparr>)"
    using pickRandom_same [OF assms] by blast
  show ?thesis
    by (simp add: portraitOnly_def p makeId_def nextMathRandom_def alike_defs
          split: option.splits)
qed

lemma stateAny_alike:
  assumes "rnd st1 = rnd st2"
  shows "alike (stateAny senators st1) (stateAny senators st2)"
proof (cases "groupByState senators")
  case None
  then show ?thesis using assms by (simp add: stateAny_def alike_defs)
next
  case (Some byState)
  let ?states = "filter (\<lambda>k. case map_of byState k of None \<Rightarrow> False
                     | Some ms \<Rightarrow> length ms \<ge> 1) (objectKeys byState)"
  obtain x rs where p: "pickRandom ?states st1 = (x, st1\<lparr>rnd := rs\<rparr>)"
    "pickRandom ?states st2 = (x, st2\<lparr>rnd := rs\<rparr>)"
    using pickRandom_same [OF assms] by blast
  show ?thesis
    by (simp add: stateAny_def Some p makeId_def nextMathRandom_def alike_defs Let_def)
qed

lemma statePartyAnyLoop_alike:
  "rnd st1 = rnd st2 \<Longrightarrow>
   alike (apfst Returned (statePartyAnyLoop n senators st1))
     (apfst Returned (statePartyAnyLoop n senators st2))"
proof (induction n arbitrary: st1 st2)
  case 0
  then show ?case by (simp add: alike_defs)
next
  case (Suc n)
  obtain x rs where p: "pickRandom (uniqueStates senators) st1 = (x, st1\<lparr>rnd := rs\<rparr>)"
    "pickRandom (uniqueStates senators) st2 = (x, st2\<lparr>rnd := rs\<rparr>)"
    using pickRandom_same [OF Suc.prems] by blast
  have "rnd (st1\<lparr>rnd := rs\<rparr>) = rnd (st2\<lparr>rnd := rs\<rparr>)" by simp
  then obtain y rs' where q: "pickRandom parties (st1\<lparr>rnd := rs\<rparr>) = (y, st1\<lparr>rnd := rs'\<rparr>)"
    "pickRandom parties (st2\<lparr>rnd := rs\<rparr>) = (y, st2\<lparr>rnd := rs'\<rparr>)"
    using pickRandom_same [of "st1\<lparr>rnd := rs\<rparr>" "st2\<lparr>rnd := rs\<rparr>" parties] by auto
  have ih: "alike (apfst Returned (statePartyAnyLoop n senators (st1\<lparr>rnd := rs'\<rparr>)))
              (apfst Returned (statePartyAnyLoop n senators (st2\<lparr>rnd := rs'\<rparr>)))"
    by (rule Suc.IH) simp
  show ?case
    using ih
    by (simp add: p q makeId_def nextMathRandom_def alike_defs Let_def)
qed

lemma stateSeniorityLoop_alike:
  "rnd st1 = rnd st2 \<Longrightarrow>
   alike (apfst Returned (stateSeniorityLoop n d senators st1))
     (apfst Returned (stateSeniorityLoop n d senators st2))"
proof (induction n arbitrary: st1 st2)
  case 0
  then show ?case by (simp add: alike_defs)
next
  case (Suc n)
  obtain x rs where p: "pickRandom (uniqueStates senators) st1 = (x, st1\<lparr>rnd := rs\<rparr>)"
    "pickRandom (uniqueStates senators) st2 = (x, st2\<lparr>rnd := rs\<rparr>)"
    using pickRandom_same [OF Suc.prems] by blast
  have "rnd (st1\<lparr>rnd := rs\<rparr>) = rnd (st2\<lparr>rnd := rs\<rparr>)" by simp
  then obtain y rs' where q: "pickRandom seniorities (st1\<lparr>rnd := rs\<rparr>) = (y, st1\<lparr>rnd := rs'\<rparr>)"
    "pickRandom seniorities (st2\<lparr>rnd := rs\<rparr>) = (y, st2\<lparr>rnd := rs'\<rparr>)"
    using pickRandom_same [of "st1\<lparr>rnd := rs\<rparr>" "st2\<lparr>rnd := rs\<rparr>" seniorities] by auto
  have ih: "alike (apfst Returned (stateSeniorityLoop n d senators (st1\<lparr>rnd := rs'\<rparr>)))
              (apfst Returned (stateSeniorityLoop n d senators (st2\<lparr>rnd := rs'\<rparr>)))"
    by (rule Suc.IH) simp
  show ?case
    using ih
    by (simp add: p q makeId_def nextMathRandom_def alike_defs Let_def)
qed

lemma statePartySeniorityLoop_alike:
  "rnd st1 = rnd st2 \<Longrightarrow>
   alike (apfst Returned (statePartySeniorityLoop n senators st1))
     (apfst Returned (statePartySeniorityLoop n senators st2))"
proof (induction n arbitrary: st1 st2)
  case 0
  then show ?case by (simp add: alike_defs)
next
  case (Suc n)
  obtain x rs where p: "pickRandom (uniqueStates senators) st1 = (x, st1\<lparr>rnd := rs\<rparr>)"
    "pickRandom (uniqueStates senators) st2 = (x, st2\<lparr>rnd := rs\<rparr>)"
    using pickRandom_same [OF Suc.prems] by blast
  have "rnd (st1\<lparr>rnd := rs\<rparr>) = rnd (st2\<lparr>rnd := rs\<rparr>)" by simp
  then obtain y rs' where q: "pickRandom parties (st1\<lparr>rnd := rs\<rparr>) = (y, st1\<lparr>rnd := rs'\<rparr>)"
    "pickRandom parties (st2\<lparr>rnd := rs\<rparr>) = (y, st2\<lparr>rnd := rs'\<rparr>)"
    using pickRandom_same [of "st1\<lparr>rnd := rs\<rparr>" "st2\<lparr>rnd := rs\<rparr>" parties] by auto
  have "rnd (st1\<lparr>rnd := rs'\<rparr>) = rnd (st2\<lparr>rnd := rs'\<rparr>)" by simp
  then obtain z rs'' where r: "pickRandom seniorities (st1\<lparr>rnd := rs'\<rparr>) = (z, st1\<lparr>rnd := rs''\<rparr>)"
    "pickRandom seniorities (st2\<lparr>rnd := rs'\<rparr>) = (z, st2\<lparr>rnd := rs''\<rparr>)"
    using pickRandom_same [of "st1\<lparr>rnd := rs'\<rparr>" "st2\<lparr>rnd := rs'\<rparr>" seniorities] by auto
  have ih: "alike (apfst Returned (statePartySeniorityLoop n senators (st1\<lparr>rnd := rs''\<rparr>)))
              (apfst Returned (statePartySeniorityLoop n senators (st2\<lparr>rnd := rs''\<rparr>)))"
    by (rule Suc.IH) simp
  show ?case
    using ih
    by (simp add: p q r makeId_def nextMathRandom_def alike_defs Let_def)
qed

lemma partyOfPortrait_alike:
  assumes "rnd st1 = rnd st2"
  shows "alike (apfst Returned (partyOfPortrait senators st1))
           (apfst Returned (partyOfPortrait senators st2))"
proof -
  obtain x rs where p: "pickRandom senators st1 = (x, st1\<lparr>rnd := rs\<rparr>)"
    "pickRandom senators st2 = (x, st2\<lparr>rnd := rs\<rparr>)"
    using pickRandom_same [OF assms] by blast
  show ?thesis
    by (simp add: partyOfPortrait_def p makeId_def nextMathRandom_def alike_defs
          split: option.splits)
qed

lemma stateOfPortrait_alike:
  assumes "rnd st1 = rnd st2"
  shows "alike (apfst Returned (stateOfPortrait senators st1))
           (apfst Returned (stateOfPortrait senators st2))"
proof -
  obtain x rs where p: "pickRandom senators st1 = (x, st1\<lparr>rnd := rs\<rparr>)"
    "pickRandom senators st2 = (x, st2\<lparr>rnd := rs\<rparr>)"
    using pickRandom_same [OF assms] by blast
  show ?thesis
    by (simp add: stateOfPortrait_def p makeId_def nextMathRandom_def alike_defs
          split: option.splits)
qed

text \<open>The two fillers that flip a coin: their questions are of a coin type.\<close>

lemma partyOfRandom_alike:
  assumes "rnd st1 = rnd st2"
  shows "alike (apfst Returned (partyOfRandom d senators st1))
           (apfst Returned (partyOfRandom d senators st2))"
proof -
  obtain x rs where p: "pickRandom senators st1 = (x, st1\<lparr>rnd := rs\<rparr>)"
    "pickRandom senators st2 = (x, st2\<lparr>rnd := rs\<rparr>)"
    using pickRandom_same [OF assms] by blast
  show ?thesis
    by (simp add: partyOfRandom_def p makeId_def nextMathRandom_def alike_defs Let_def
          split: option.splits)
qed

lemma stateOfRandom_alike:
  assumes "rnd st1 = rnd st2"
  shows "alike (apfst Returned (stateOfRandom d senators st1))
           (apfst Returned (stateOfRandom d senators st2))"
proof -
  obtain x rs where p: "pickRandom senators st1 = (x, st1\<lparr>rnd := rs\<rparr>)"
    "pickRandom senators st2 = (x, st2\<lparr>rnd := rs\<rparr>)"
    using pickRandom_same [OF assms] by blast
  show ?thesis
    by (simp add: stateOfRandom_def p makeId_def nextMathRandom_def alike_defs Let_def
          split: option.splits)
qed

lemma tryTemplate_alike:
  assumes "rnd st1 = rnd st2"
  shows "alike (tryTemplate k d senators st1) (tryTemplate k d senators st2)"
  using assms
  by (simp add: tryTemplate_def portraitOnly_alike stateAny_alike statePartyAny_def
        statePartyAnyLoop_alike stateSeniority_def stateSeniorityLoop_alike
        statePartySeniority_def statePartySeniorityLoop_alike partyOfPortrait_alike
        stateOfPortrait_alike partyOfRandom_alike stateOfRandom_alike)
     (simp add: alike_defs)

lemma shuffleFrom_same:
  "rnd st1 = rnd st2 \<Longrightarrow>
   fst (shuffleFrom k arr st1) = fst (shuffleFrom k arr st2) \<and>
   rnd (snd (shuffleFrom k arr st1)) = rnd (snd (shuffleFrom k arr st2))"
proof (induction k arbitrary: arr st1 st2)
  case 0
  then show ?case by simp
next
  case (Suc k)
  have "rnd (st1\<lparr>rnd := stl (rnd st1)\<rparr>) = rnd (st2\<lparr>rnd := stl (rnd st2)\<rparr>)"
    using Suc.prems by simp
  from Suc.IH [OF this] show ?case
    using Suc.prems by (simp add: nextRnd_def Let_def)
qed

lemma alike_cases:
  assumes "alike (g1, s1) (g2, s2)"
  shows "rnd s1 = rnd s2 \<and>
    ((g1 = TypeError \<and> g2 = TypeError) \<or>
     (\<exists>r1 r2. g1 = Returned r1 \<and> g2 = Returned r2 \<and> isError r1 = isError r2))"
proof -
  have "rnd s1 = rnd s2" using assms by (simp add: alike_def)
  moreover have "(g1 = TypeError \<and> g2 = TypeError) \<or>
     (\<exists>r1 r2. g1 = Returned r1 \<and> g2 = Returned r2 \<and> isError r1 = isError r2)"
    using assms
    by (cases g1; cases g2) (auto simp: alike_def alikeGenerated_def isError_def split: sum.splits)
  ultimately show ?thesis by blast
qed

lemma tryEach_alike:
  "rnd st1 = rnd st2 \<Longrightarrow> alike (tryEach ts d senators st1) (tryEach ts d senators st2)"
proof (induction ts arbitrary: st1 st2)
  case Nil
  then show ?case by (simp add: alike_def alikeGenerated_def)
next
  case (Cons t ts)
  show ?case
  proof (cases t)
    case None
    then show ?thesis using Cons.prems by (simp add: alike_def alikeGenerated_def)
  next
    case (Some u)
    obtain g1 s1 where t1: "tryTemplate (key u) d senators st1 = (g1, s1)"
      by (cases "tryTemplate (key u) d senators st1")
    obtain g2 s2 where t2: "tryTemplate (key u) d senators st2 = (g2, s2)"
      by (cases "tryTemplate (key u) d senators st2")
    have al: "alike (g1, s1) (g2, s2)"
      using tryTemplate_alike [OF Cons.prems, of "key u" d senators] t1 t2 by simp
    from alike_cases [OF al] have s: "rnd s1 = rnd s2"
      and c: "(g1 = TypeError \<and> g2 = TypeError) \<or>
        (\<exists>r1 r2. g1 = Returned r1 \<and> g2 = Returned r2 \<and> isError r1 = isError r2)"
      by simp_all
    from c show ?thesis
    proof
      assume "g1 = TypeError \<and> g2 = TypeError"
      then show ?thesis using Some t1 t2 al by simp
    next
      assume "\<exists>r1 r2. g1 = Returned r1 \<and> g2 = Returned r2 \<and> isError r1 = isError r2"
      then obtain r1 r2 where r: "g1 = Returned r1" "g2 = Returned r2" "isError r1 = isError r2"
        by blast
      show ?thesis
      proof (cases "isError r1")
        case True
        then show ?thesis using Cons.IH [OF s] r Some t1 t2 by simp
      next
        case False
        then show ?thesis using al r Some t1 t2 by simp
      qed
    qed
  qed
qed

text \<open>
  Claim C6, as the code has it. Two calls of \<open>generateQuestion\<close> whose supplied sources
  \<open>rnd\<close> give the same numbers shuffle the templates into the same order, leave the same
  \<open>rnd\<close> behind, and come to like outcomes: both raise, or both return the same failure
  value, or both return a question. The two questions agree in every field but the
  identifier, which \<open>makeId\<close> draws from \<^verbatim>\<open>Math.random\<close>; unless both are of one of the
  four types of the templates \<open>partyOfRandom\<close> and \<open>stateOfRandom\<close>, which flip a coin
  on \<^verbatim>\<open>Math.random\<close>: then they still have the same difficulty, correct answers, answer
  modes and portrait.
\<close>

theorem generateQuestion_determined_but_id_and_coin:
  assumes "rnd st1 = rnd st2"
  shows "fst (shuffleInPlace (map Some (Templates d)) st1)
           = fst (shuffleInPlace (map Some (Templates d)) st2) \<and>
         alikeGenerated (fst (generateQuestion d senators st1))
           (fst (generateQuestion d senators st2)) \<and>
         rnd (snd (generateQuestion d senators st1)) = rnd (snd (generateQuestion d senators st2))"
proof -
  obtain arr s1 where sh1: "shuffleInPlace (map Some (Templates d)) st1 = (arr, s1)"
    by (cases "shuffleInPlace (map Some (Templates d)) st1")
  obtain arr2 s2 where sh2: "shuffleInPlace (map Some (Templates d)) st2 = (arr2, s2)"
    by (cases "shuffleInPlace (map Some (Templates d)) st2")
  have same: "arr = arr2" "rnd s1 = rnd s2"
    using shuffleFrom_same [OF assms, of "length (map Some (Templates d)) - 1" "map Some (Templates d)"]
      sh1 sh2 by (simp_all add: shuffleInPlace_def)
  have g1: "generateQuestion d senators st1 = tryEach arr d senators s1"
    using generateQuestion_tryEach [OF sh1] .
  have g2: "generateQuestion d senators st2 = tryEach arr d senators s2"
    using generateQuestion_tryEach [OF sh2] same(1) by simp
  show ?thesis
    using tryEach_alike [OF same(2), of arr d senators] same(1) sh1 sh2
    unfolding g1 g2 by (simp add: alike_def)
qed


theorem generateQuestion_determined_but_id_and_coin_witness:
  "rnd zeroDraws = rnd otherAmbient \<and>
   alikeGenerated (fst (generateQuestion Easy exampleRoster zeroDraws))
     (fst (generateQuestion Easy exampleRoster otherAmbient)) \<and>
   rnd coinHeads = rnd coinTails \<and>
   alikeGenerated (fst (generateQuestion Hard exampleRoster coinHeads))
     (fst (generateQuestion Hard exampleRoster coinTails))"
proof -
  have r: "rnd zeroDraws = rnd otherAmbient" by (simp add: zeroDraws_def otherAmbient_def)
  have c: "rnd coinHeads = rnd coinTails" by (simp add: coinHeads_def coinTails_def)
  show ?thesis
    using r c generateQuestion_determined_but_id_and_coin [OF r, of Easy exampleRoster]
      generateQuestion_determined_but_id_and_coin [OF c, of Hard exampleRoster]
    by simp
qed

lemmas generator_eval = generateQuestion_def Templates_def shuffleInPlace_def swap_def
  nextRnd_def tryTemplate_def pickRandom_def exampleRoster_def makeId_def nextMathRandom_def
  isError_def officialName_def portraitUrl_def PORTRAIT_BASE_def Let_def

lemma generateQuestion_coinHeads:
  "fst (generateQuestion Hard exampleRoster coinHeads) =
     Returned (Inr \<lparr>id_q = 0, template = ''Which party does this senator belong to?'',
        filled_variables = [], difficulty = Hard, correct_answers = [''Democrat''],
        allowed_answer_modes = [''full_name''], type = ''party_portrait_hard'',
        portrait_image = Some ''assets/smith.jpg''\<rparr>)"
  by (simp add: generator_eval coinHeads_def partyFirst_def partyOfRandom_def)

lemma generateQuestion_coinTails:
  "fst (generateQuestion Hard exampleRoster coinTails) =
     Returned (Inr \<lparr>id_q = 3 / 4, template = ''Which party does {name} belong to?'',
        filled_variables = [(''name'', Some ''John Smith'')], difficulty = Hard,
        correct_answers = [''Democrat''],
        allowed_answer_modes = [''full_name''], type = ''party_text_hard'',
        portrait_image = Some ''assets/smith.jpg''\<rparr>)"
  by (simp add: generator_eval coinTails_def partyFirst_def partyOfRandom_def)

lemma statePartyAny_example:
  "statePartyAny exampleRoster \<lparr>rnd = sconst 0, mathRandom = sconst m\<rparr> =
     (Inr \<lparr>id_q = m, template = ''Name a {party} senator from {state}.'',
        filled_variables = [(''party'', Some ''Democrat''), (''state'', Some ''Ohio'')],
        difficulty = Easy, correct_answers = [''John Smith''],
        allowed_answer_modes = [''last_name'', ''full_name''], type = ''text'',
        portrait_image = None\<rparr>, \<lparr>rnd = sconst 0, mathRandom = sconst m\<rparr>)"
  using statePartyAnyLoop.simps(2) [of 29 exampleRoster "\<lparr>rnd = sconst 0, mathRandom = sconst m\<rparr>"]
  by (simp add: statePartyAny_def exampleRoster_def uniqueStates_def pickRandom_def nextRnd_def
        parties_def getByStatePartySeniority_def truthy_def makeId_def nextMathRandom_def
        officialName_def)

lemma generateQuestion_sconst0:
  "fst (generateQuestion Easy exampleRoster \<lparr>rnd = sconst 0, mathRandom = sconst m\<rparr>) =
     Returned (Inr \<lparr>id_q = m, template = ''Name a {party} senator from {state}.'',
        filled_variables = [(''party'', Some ''Democrat''), (''state'', Some ''Ohio'')],
        difficulty = Easy, correct_answers = [''John Smith''],
        allowed_answer_modes = [''last_name'', ''full_name''], type = ''text'',
        portrait_image = None\<rparr>)"
  by (simp add: generateQuestion_def Templates_def shuffleInPlace_def swap_def nextRnd_def
        tryTemplate_def isError_def Let_def statePartyAny_example)

text \<open>
  Claim C6 as stated fails. With the same supplied source, a Hard question comes out
  with the portrait or with the name according to the coin flipped on \<^verbatim>\<open>Math.random\<close>,
  and an Easy question comes out under different identifiers.
\<close>

theorem same_rnd_different_questions:
  "rnd coinHeads = rnd coinTails \<and>
   fst (generateQuestion Hard exampleRoster coinHeads)
     \<noteq> fst (generateQuestion Hard exampleRoster coinTails) \<and>
   rnd zeroDraws = rnd otherAmbient \<and>
   fst (generateQuestion Easy exampleRoster zeroDraws)
     \<noteq> fst (generateQuestion Easy exampleRoster otherAmbient)"
proof -
  have 1: "rnd coinHeads = rnd coinTails" by (simp add: coinHeads_def coinTails_def)
  have 2: "fst (generateQuestion Hard exampleRoster coinHeads)
             \<noteq> fst (generateQuestion Hard exampleRoster coinTails)"
    by (simp add: generateQuestion_coinHeads generateQuestion_coinTails)
  have 3: "rnd zeroDraws = rnd otherAmbient" by (simp add: zeroDraws_def otherAmbient_def)
  have 4: "fst (generateQuestion Easy exampleRoster zeroDraws)
             \<noteq> fst (generateQuestion Easy exampleRoster otherAmbient)"
    unfolding zeroDraws_def otherAmbient_def by (simp add: generateQuestion_sconst0)
  from 1 2 3 4 show ?thesis by blast
qed

section \<open>Questions that allow the full name only\<close>

lemma singleAnswered_Inl [simp]: "singleAnswered (Inl e, st)"
  by (simp add: singleAnswered_def)

lemma portraitOnly_single: "singleAnswered (portraitOnly d senators st)"
  by (simp add: portraitOnly_def singleAnswered_def Let_def split: prod.splits option.splits)

lemma statePartyAnyLoop_single: "singleAnswered (statePartyAnyLoop n senators st)"
  by (induction n arbitrary: st) (auto simp: singleAnswered_def Let_def split: prod.splits)

lemma stateSeniorityLoop_single: "singleAnswered (stateSeniorityLoop n d senators st)"
  by (induction n arbitrary: st) (auto simp: singleAnswered_def Let_def split: prod.splits)

lemma statePartySeniorityLoop_single: "singleAnswered (statePartySeniorityLoop n senators st)"
  by (induction n arbitrary: st) (auto simp: singleAnswered_def Let_def split: prod.splits)

lemma partyOfPortrait_single: "singleAnswered (partyOfPortrait senators st)"
  by (simp add: partyOfPortrait_def singleAnswered_def Let_def split: prod.splits option.splits)

lemma stateOfPortrait_single: "singleAnswered (stateOfPortrait senators st)"
  by (simp add: stateOfPortrait_def singleAnswered_def Let_def split: prod.splits option.splits)

lemma partyOfRandom_single: "singleAnswered (partyOfRandom d senators st)"
  by (simp add: partyOfRandom_def singleAnswered_def Let_def split: prod.splits option.splits)

lemma stateOfRandom_single: "singleAnswered (stateOfRandom d senators st)"
  by (simp add: stateOfRandom_def singleAnswered_def Let_def split: prod.splits option.splits)

lemma stateAny_single:
  "stateAny senators st = (Returned (Inr q), st') \<Longrightarrow> allowed_answer_modes q \<noteq> [''full_name'']"
  by (auto simp: stateAny_def Let_def split: option.splits prod.splits if_splits)

lemma returned_single:
  "singleAnswered x \<Longrightarrow> apfst Returned x = (Returned (Inr q), st') \<Longrightarrow>
   allowed_answer_modes q = [''full_name''] \<Longrightarrow> \<exists>a. correct_answers q = [a]"
  by (cases x) (auto simp: singleAnswered_def length_Suc_conv)

lemma tryTemplate_single:
  assumes "tryTemplate k d senators st = (Returned (Inr q), st')"
    and "allowed_answer_modes q = [''full_name'']"
  shows "\<exists>a. correct_answers q = [a]"
proof -
  have other: "singleAnswered x \<Longrightarrow> apfst Returned x = (Returned (Inr q), st') \<Longrightarrow>
      \<exists>a. correct_answers q = [a]" for x
    using returned_single assms(2) by blast
  show ?thesis
    using assms(1) stateAny_single [of senators st q st'] assms(2)
      other [OF portraitOnly_single, of d senators st]
      other [OF statePartyAnyLoop_single, of 30 senators st]
      other [OF stateSeniorityLoop_single, of 40 d senators st]
      other [OF statePartySeniorityLoop_single, of 50 senators st]
      other [OF partyOfPortrait_single, of senators st]
      other [OF stateOfPortrait_single, of senators st]
      other [OF partyOfRandom_single, of d senators st]
      other [OF stateOfRandom_single, of d senators st]
    unfolding tryTemplate_def statePartyAny_def stateSeniority_def statePartySeniority_def
    by (simp split: if_splits)
qed

lemma validateAnswer_single:
  assumes "correct_answers q = [a]"
  shows "is_correct (validateAnswer q inp) \<longleftrightarrow>
     normalizeName inp = normalizeName a \<or>
     (difficulty q = Easy \<and>
       ((lastNameOf a = lastNameOf (normalizeName inp) \<and> lastNameOf (normalizeName inp) \<noteq> []) \<or>
        withinMisspellingThreshold (normalizeName inp) a \<or>
        (withinMisspellingThreshold (lastNameOf (normalizeName inp)) (lastNameOf a) \<and>
         lastNameOf (normalizeName inp) \<noteq> [])))"
proof (cases "difficulty q")
  case Hard
  then show ?thesis using validateAnswer_Hard [of q inp] assms by simp
next
  case Easy
  then show ?thesis using validateAnswer_Easy [of q inp] assms by auto
qed

text \<open>
  Claim C2, as the code has it. \<open>validateAnswer\<close> never reads \<open>allowed_answer_modes\<close>:
  changing that field changes the verdict on no question. A generated question whose
  permission set is exactly \<^verbatim>\<open>["full_name"]\<close> has a single correct answer, and an input is
  accepted exactly when its normal form is that of the answer or, for a question of
  difficulty Easy (as \<open>partyOfPortrait\<close> and \<open>stateOfPortrait\<close> build it), its last name
  is the last name of the answer, or it is within the misspelling threshold of the
  answer, or its last name is within the threshold of the answer's last name.
\<close>

theorem full_name_questions_follow_difficulty:
  "validateAnswer (q'\<lparr>allowed_answer_modes := ms\<rparr>) inp' = validateAnswer q' inp' \<and>
   (tryTemplate k d senators st = (Returned (Inr q), st') \<and>
    allowed_answer_modes q = [''full_name''] \<longrightarrow>
      (\<exists>a. correct_answers q = [a] \<and>
         (is_correct (validateAnswer q inp) \<longleftrightarrow>
            normalizeName inp = normalizeName a \<or>
            (difficulty q = Easy \<and>
              ((lastNameOf a = lastNameOf (normalizeName inp) \<and>
                  lastNameOf (normalizeName inp) \<noteq> []) \<or>
               withinMisspellingThreshold (normalizeName inp) a \<or>
               (withinMisspellingThreshold (lastNameOf (normalizeName inp)) (lastNameOf a) \<and>
                  lastNameOf (normalizeName inp) \<noteq> []))))))"
  using validateAnswer_ignores_modes tryTemplate_single validateAnswer_single by blast

lemma partyOfPortrait_example:
  "partyOfPortrait exampleRoster zeroDraws = (Inr partyQuestion, zeroDraws)"
  by (simp add: partyOfPortrait_def exampleRoster_def zeroDraws_def pickRandom_def nextRnd_def
        makeId_def nextMathRandom_def officialName_def portraitUrl_def PORTRAIT_BASE_def
        partyQuestion_def)

lemma party_names_normalized:
  "normalizeName ''the democrat'' = ''the democrat''"
  "normalizeName ''Democrat'' = ''democrat''"
  "normalizeName ''democrat'' = ''democrat''"
  "normalizeName ''gop'' = ''gop''"
  by (simp_all add: norm_eval)

lemma party_last_names:
  "lastNameOf ''the democrat'' = ''democrat''"
  "lastNameOf ''Democrat'' = ''democrat''"
  "lastNameOf ''gop'' = ''gop''"
  by (simp_all add: lastNameOf_def party_names_normalized)

lemma gop_far_from_democrat:
  "\<not> withinMisspellingThreshold ''gop'' ''Democrat''"
  "\<not> withinMisspellingThreshold ''gop'' ''democrat''"
proof -
  have "5 \<le> edit_distance ''gop'' ''democrat''"
    by (rule edit_distance_lower) simp
  then show "\<not> withinMisspellingThreshold ''gop'' ''Democrat''"
    "\<not> withinMisspellingThreshold ''gop'' ''democrat''"
    by (simp_all add: withinMisspellingThreshold_iff party_names_normalized
          del: edit_distance.simps)
qed

text \<open>
  Claim C2 as stated fails: the question that \<open>partyOfPortrait\<close> builds for a Democrat
  carries the permission set \<^verbatim>\<open>["full_name"]\<close>, and the input \<^verbatim>\<open>"the democrat"\<close>, whose normal
  form is not that of the answer, is accepted through the last-name rule.
\<close>

theorem full_name_mode_accepts_last_name:
  "(case fst (partyOfPortrait exampleRoster zeroDraws) of
      Inl e \<Rightarrow> False
    | Inr q \<Rightarrow>
        allowed_answer_modes q = [''full_name''] \<and>
        is_correct (validateAnswer q ''the democrat'') \<and>
        accepted_as (validateAnswer q ''the democrat'') = ''last_name'' \<and>
        normalizeName ''the democrat'' \<notin> set (map normalizeName (correct_answers q)))"
  by (simp add: partyOfPortrait_example partyQuestion_def validateAnswer_def Let_def
        party_names_normalized party_last_names)

theorem full_name_questions_follow_difficulty_witness:
  "tryTemplate ''party_of_portrait'' Easy exampleRoster zeroDraws
     = (Returned (Inr partyQuestion), zeroDraws) \<and>
   allowed_answer_modes partyQuestion = [''full_name''] \<and>
   is_correct (validateAnswer partyQuestion ''the democrat'') \<and>
   \<not> is_correct (validateAnswer partyQuestion ''gop'') \<and>
   validateAnswer ((exampleQuestion Easy [''John Smith''])\<lparr>allowed_answer_modes := [''full_name'']\<rparr>) ''smith''
     = validateAnswer (exampleQuestion Easy [''John Smith'']) ''smith''"
proof -
  have t: "tryTemplate ''party_of_portrait'' Easy exampleRoster zeroDraws
             = (Returned (Inr partyQuestion), zeroDraws)"
    by (simp add: tryTemplate_def partyOfPortrait_example)
  have m: "allowed_answer_modes partyQuestion = [''full_name'']"
    "correct_answers partyQuestion = [''Democrat'']" "difficulty partyQuestion = Easy"
    by (simp_all add: partyQuestion_def)
  show ?thesis
    using t m(1)
      full_name_questions_follow_difficulty [where q' = "exampleQuestion Easy [''John Smith'']"
        and ms = "[''full_name'']" and inp' = "''smith''" and k = "''party_of_portrait''"
        and d = Easy and senators = exampleRoster and st = zeroDraws and q = partyQuestion
        and st' = zeroDraws and inp = "''the democrat''"]
      full_name_questions_follow_difficulty [where q' = "exampleQuestion Easy [''John Smith'']"
        and ms = "[''full_name'']" and inp' = "''smith''" and k = "''party_of_portrait''"
        and d = Easy and senators = exampleRoster and st = zeroDraws and q = partyQuestion
        and st' = zeroDraws and inp = "''gop''"]
    by (simp add: m party_names_normalized party_last_names gop_far_from_democrat)
qed

end
